theory Spec2Isabelle
  imports Complex_Main
begin

section \<open>JavaScript values\<close>

text \<open>
  The bot is JavaScript. A number is taken as the real it denotes (sizes are only ever
  compared with the literal 3 and multiplied with the price). A field that is absent,
  \<open>null\<close> or of another type than the one the code tests for is \<open>None\<close>.
  Identifier and name fields are strings when present (the source documents the last-seen
  sets as \<open>Set<string>\<close>); the empty string is falsy, as in JavaScript.
\<close>

definition truthy :: "string option \<Rightarrow> bool" where
  "truthy v = (case v of None \<Rightarrow> False | Some s \<Rightarrow> s \<noteq> [])"

text \<open>\<open>a || b\<close> on optional strings.\<close>

definition js_or :: "string option \<Rightarrow> string option \<Rightarrow> string option" where
  "js_or a b = (if truthy a then a else b)"

text \<open>\<open>a || d\<close> where \<open>d\<close> is a string that is always there.\<close>

definition orDefault :: "string option \<Rightarrow> string \<Rightarrow> string" where
  "orDefault a d = (case a of None \<Rightarrow> d | Some s \<Rightarrow> if s \<noteq> [] then s else d)"

text \<open>
  A JavaScript \<open>Set\<close> keeps its elements in insertion order, each once:
  \<open>new Set(array)\<close> adds the elements from left to right.
\<close>

definition setAdd :: "'a \<Rightarrow> 'a list \<Rightarrow> 'a list" where
  "setAdd x xs = (if x \<in> set xs then xs else xs @ [x])"

definition newSet :: "'a list \<Rightarrow> 'a list" where
  "newSet xs = foldl (\<lambda>acc x. setAdd x acc) [] xs"

section \<open>Data model\<close>

text \<open>
  One entry of the constant \<open>LOBBIES\<close>. The field \<open>noApi_l\<close> is the entry's own
  \<open>noApi\<close> property (only \<open>eu-5\<close> has it); the code never reads it.
\<close>

record lobbydef =
  key :: string
  region :: string
  lobby :: int
  label :: string
  url :: "string option"
  noApi_l :: bool

text \<open>
  A player object of the upstream response. \<open>id_p\<close> is its \<open>id\<close>, \<open>size_p\<close> its
  \<open>size\<close>: \<open>Some x\<close> exactly when \<open>typeof p.size === 'number'\<close>, and likewise for
  \<open>monetaryValue\<close> and \<open>usdFromSol\<close>.
\<close>

record player =
  privyId :: "string option"
  id_p :: "string option"
  name :: "string option"
  size_p :: "real option"
  monetaryValue :: "real option"
  usdFromSol :: "real option"

text \<open>
  A cache entry. \<open>players\<close> is \<open>Some\<close> exactly when \<open>Array.isArray(snapshot.players)\<close>,
  \<open>lastFetched\<close> is the \<open>Date\<close> in milliseconds (\<open>None\<close> when falsy). Times are
  milliseconds since the epoch.
\<close>

record snapshot =
  serverId :: string
  playerCount :: real
  players :: "player list option"
  timestamp :: int
  lastFetched :: "int option"
  noApi :: bool

text \<open>
  What \<open>axios.get(lobbyDef.url, { timeout: 5000 })\<close> gives: the promise rejects
  (timeout, network error, status outside 2xx), or resolves with \<open>res.data\<close>, which is
  falsy (\<open>None\<close>) or a body. An element of \<open>data.players\<close> is \<open>None\<close> when it is JSON
  \<open>null\<close>. \<open>timestamp_b\<close> is \<open>None\<close> when the field is missing.
\<close>

record body =
  success :: bool
  players_b :: "player option list option"
  serverId_b :: "string option"
  playerCount_b :: "real option"
  timestamp_b :: "int option"

datatype response = Rejected | Resolved "body option"

datatype error = RequestFailed | ApiNonSuccess | TypeError | SendFailed

text \<open>
  The module's variables the fetcher works on: \<open>lobbyCache\<close>, \<open>solPriceUsd\<close> and
  \<open>solPriceUpdatedAt\<close>. \<open>netCalls\<close> is not a variable of the source: it counts the
  requests \<open>axios.get\<close> has sent to lobby endpoints.
\<close>

record state =
  lobbyCache :: "string \<rightharpoonup> snapshot"
  solPriceUsd :: "real option"
  solPriceUpdatedAt :: "int option"
  netCalls :: nat

definition LOBBIES :: "lobbydef list" where
  "LOBBIES =
    [\<lparr>key = ''us-1'', region = ''us'', lobby = 1, label = ''US $1'',
      url = Some ''https://damnbruh-game-server-instance-1-us.onrender.com/players'',
      noApi_l = False\<rparr>,
     \<lparr>key = ''us-5'', region = ''us'', lobby = 5, label = ''US $5'',
      url = Some ''https://damnbruh-game-server-instance-5-us.onrender.com/players'',
      noApi_l = False\<rparr>,
     \<lparr>key = ''us-20'', region = ''us'', lobby = 20, label = ''US $20'',
      url = Some ''https://damnbruh-game-server-instance-20-us.onrender.com/players'',
      noApi_l = False\<rparr>,
     \<lparr>key = ''eu-1'', region = ''eu'', lobby = 1, label = ''EU $1'',
      url = Some ''https://damnbruh-game-server-instance-1-eu.onrender.com/players'',
      noApi_l = False\<rparr>,
     \<lparr>key = ''eu-5'', region = ''eu'', lobby = 5, label = ''EU $5'',
      url = None, noApi_l = True\<rparr>,
     \<lparr>key = ''eu-20'', region = ''eu'', lobby = 20, label = ''EU $20'',
      url = Some ''https://damnbruh-game-server-instance-20-eu.onrender.com/players'',
      noApi_l = False\<rparr>]"

definition findLobby :: "string \<Rightarrow> int \<Rightarrow> lobbydef option" where
  "findLobby r n = find (\<lambda>l. region l = r \<and> lobby l = n) LOBBIES"

section \<open>SnapshotCache and Fetcher (index.js 104-163)\<close>

text \<open>
  The callback of \<open>players.map\<close>: \<open>usdFromSol\<close> is the product when
  \<open>monetaryValue\<close> is a number and \<open>solPriceUsd && solPriceUsd > 0\<close>, else \<open>null\<close>.
\<close>

definition attachUsd :: "real option \<Rightarrow> player \<Rightarrow> player" where
  "attachUsd price p =
     p\<lparr>usdFromSol :=
         (case monetaryValue p of
            None \<Rightarrow> None
          | Some m \<Rightarrow>
              (case price of
                 None \<Rightarrow> None
               | Some pr \<Rightarrow> if pr \<noteq> 0 \<and> 0 < pr then Some (m * pr) else None))\<rparr>"

text \<open>\<open>players.map(...)\<close>: reading \<open>p.monetaryValue\<close> of a \<open>null\<close> element throws.\<close>

fun mapPlayers :: "real option \<Rightarrow> player option list \<Rightarrow> error + player list" where
  "mapPlayers price [] = Inr []"
| "mapPlayers price (None # ps) = Inl TypeError"
| "mapPlayers price (Some p # ps) =
     (case mapPlayers price ps of
        Inl e \<Rightarrow> Inl e
      | Inr qs \<Rightarrow> Inr (attachUsd price p # qs))"

text \<open>
  The body of the \<open>try\<close> block of \<open>fetchLobbyPlayers\<close>, up to the snapshot it builds.
  \<open>tStamp\<close> is the reading of \<open>Date.now()\<close>, \<open>tFetched\<close> that of \<open>new Date()\<close>.
\<close>

definition fetchTry :: "lobbydef \<Rightarrow> response \<Rightarrow> int \<Rightarrow> int \<Rightarrow> real option \<Rightarrow> error + snapshot" where
  "fetchTry lobbyDef res tStamp tFetched price =
     (case res of
        Rejected \<Rightarrow> Inl RequestFailed
      | Resolved None \<Rightarrow> Inl ApiNonSuccess
      | Resolved (Some data) \<Rightarrow>
          if \<not> success data then Inl ApiNonSuccess
          else
            (let ps = (case players_b data of Some xs \<Rightarrow> xs | None \<Rightarrow> [])
             in case mapPlayers price ps of
                  Inl e \<Rightarrow> Inl e
                | Inr playersWithUsd \<Rightarrow>
                    Inr \<lparr>serverId = orDefault (serverId_b data) (key lobbyDef),
                         playerCount =
                           (case playerCount_b data of
                              Some n \<Rightarrow> n
                            | None \<Rightarrow> real (length ps)),
                         players = Some playersWithUsd,
                         timestamp =
                           (case timestamp_b data of
                              Some t \<Rightarrow> if t \<noteq> 0 then t else tStamp
                            | None \<Rightarrow> tStamp),
                         lastFetched = Some tFetched,
                         noApi = False\<rparr>))"

text \<open>
  \<open>fetchLobbyPlayers(lobbyDef)\<close>. Without a url the placeholder is stored and returned and
  no request is sent. Otherwise one request is sent; the \<open>catch\<close> turns every error of
  the \<open>try\<close> block into the result \<open>null\<close> (\<open>None\<close>), so nothing is thrown.
\<close>

definition fetchLobbyPlayers ::
  "lobbydef \<Rightarrow> response \<Rightarrow> int \<Rightarrow> int \<Rightarrow> state \<Rightarrow> snapshot option \<times> state" where
  "fetchLobbyPlayers lobbyDef res tStamp tFetched s =
     (if \<not> truthy (url lobbyDef) then
        (let cached = \<lparr>serverId = key lobbyDef, playerCount = 0, players = Some [],
                        timestamp = tStamp, lastFetched = Some tFetched, noApi = True\<rparr>
         in (Some cached, s\<lparr>lobbyCache := (lobbyCache s)(key lobbyDef \<mapsto> cached)\<rparr>))
      else
        (let s1 = s\<lparr>netCalls := Suc (netCalls s)\<rparr>
         in case fetchTry lobbyDef res tStamp tFetched (solPriceUsd s) of
              Inl err \<Rightarrow> (None, s1)
            | Inr cached \<Rightarrow>
                (Some cached, s1\<lparr>lobbyCache := (lobbyCache s1)(key lobbyDef \<mapsto> cached)\<rparr>)))"

text \<open>
  The test of \<open>getLobbySnapshot\<close>:
  \<open>existing && existing.lastFetched && (Date.now() - existing.lastFetched.getTime()) < 5000\<close>.
\<close>

definition isFresh :: "snapshot option \<Rightarrow> int \<Rightarrow> bool" where
  "isFresh existing now =
     (case existing of
        None \<Rightarrow> False
      | Some e \<Rightarrow> (case lastFetched e of None \<Rightarrow> False | Some t \<Rightarrow> now - t < 5000))"

text \<open>
  \<open>getLobbySnapshot(lobbyDef)\<close>; \<open>now\<close> is the reading of \<open>Date.now()\<close> in the test, the
  other arguments are what a fetch would meet.
\<close>

definition getLobbySnapshot ::
  "lobbydef \<Rightarrow> int \<Rightarrow> response \<Rightarrow> int \<Rightarrow> int \<Rightarrow> state \<Rightarrow> snapshot option \<times> state" where
  "getLobbySnapshot lobbyDef now res tStamp tFetched s =
     (let existing = lobbyCache s (key lobbyDef)
      in if isFresh existing now then (existing, s)
         else fetchLobbyPlayers lobbyDef res tStamp tFetched s)"

section \<open>Guild configuration\<close>

text \<open>
  A watch, as \<open>,watch add\<close> creates it; \<open>id_w\<close> is its \<open>id\<close>, \<open>lastAlertAt\<close> the
  \<open>Date\<close> in milliseconds or \<open>null\<close>.
\<close>

record watch =
  id_w :: int
  lobbyKey :: string
  threshold :: int
  intervalMinutes :: int
  lastAlertAt :: "int option"

text \<open>
  One value of the map \<open>guildConfigs\<close>. \<open>lastSeenPlayers\<close> maps a lobby key to a
  \<open>Set\<close> of identifiers, \<open>watches\<close> is the \<open>Map\<close> from watch id to watch in insertion
  order. The last three fields exist in the variant with persistence only.
\<close>

record guildcfg =
  alertChannelId :: "string option"
  alertEnabled :: "string \<rightharpoonup> bool"
  lastSeenPlayers :: "string \<rightharpoonup> string option list"
  watches :: "(int \<times> watch) list"
  nextWatchId :: int
  pingRoleId :: "string option"
  defaultRegion :: "string option"
  refreshChannelId :: "string option"
  lastRefreshMessageId :: "string option"

text \<open>\<open>map.set(k, v)\<close> on a \<open>Map\<close> kept as a list of entries in insertion order.\<close>

fun mapSet :: "'k \<Rightarrow> 'v \<Rightarrow> ('k \<times> 'v) list \<Rightarrow> ('k \<times> 'v) list" where
  "mapSet k v [] = [(k, v)]"
| "mapSet k v ((k', v') # rest) =
     (if k' = k then (k, v) # rest else (k', v') # mapSet k v rest)"

text \<open>
  What is handed to \<open>channel.send\<close>. The embeds are kept as the values their template
  strings interpolate: the ping content, then for a join the name(s), the lobby's region
  and number and the active count; for a watch alert the region, the lobby number, the
  active count, the threshold and the interval. \<open>WatchText\<close> is the plain text of the
  first variant: region, lobby number, player count, threshold, interval and watch id.
  The region is kept as the lobby definition has it; the text shows it in upper case.
\<close>

datatype message =
  LobbyJoin string string string int nat
| LobbyJoins string "string list" string int nat
| LobbyWatchAlert string string int nat int int
| WatchText string int real int int int

definition pingContent :: "guildcfg \<Rightarrow> string" where
  "pingContent cfg =
     (case pingRoleId cfg of
        None \<Rightarrow> ''No ping role given''
      | Some r \<Rightarrow> if r \<noteq> [] then ''<@&'' @ r @ ''>'' else ''No ping role given'')"

text \<open>\<open>p.name || p.privyId || p.id || 'Unknown'\<close>.\<close>

definition displayName :: "player \<Rightarrow> string" where
  "displayName p = orDefault (js_or (js_or (name p) (privyId p)) (id_p p)) ''Unknown''"

section \<open>JoinDiffDetector (index.js 975-1058)\<close>

text \<open>\<open>p.privyId || p.id\<close>.\<close>

definition ident :: "player \<Rightarrow> string option" where
  "ident p = js_or (privyId p) (id_p p)"

text \<open>
  \<open>snapshot.players.filter(p => typeof p.size === 'number' && p.size > 3)\<close> of
  \<open>processJoinAlerts\<close>.
\<close>

definition activePlayers :: "player list \<Rightarrow> player list" where
  "activePlayers ps = filter (\<lambda>p. case size_p p of None \<Rightarrow> False | Some x \<Rightarrow> 3 < x) ps"

text \<open>\<open>new Set(activePlayers.map(p => p.privyId || p.id).filter(Boolean))\<close>.\<close>

definition currentIds :: "player list \<Rightarrow> string option list" where
  "currentIds aps = newSet (filter truthy (map ident aps))"

text \<open>The loop \<open>for (const id of currentIds)\<close> that fills \<open>newJoins\<close>.\<close>

fun collectJoins :: "string option list \<Rightarrow> string option list \<Rightarrow> player list \<Rightarrow> player list" where
  "collectJoins [] lastSet aps = []"
| "collectJoins (i # ids) lastSet aps =
     (if i \<notin> set lastSet then
        (case find (\<lambda>p. ident p = i) aps of
           None \<Rightarrow> collectJoins ids lastSet aps
         | Some player \<Rightarrow> player # collectJoins ids lastSet aps)
      else collectJoins ids lastSet aps)"

text \<open>
  Lines 994-1025 for one lobby key and the player list of its snapshot: the new joins, the
  active count and the configuration with its last-seen set replaced.
\<close>

definition joinDiff :: "string \<Rightarrow> player list \<Rightarrow> guildcfg \<Rightarrow> player list \<times> nat \<times> guildcfg" where
  "joinDiff k ps cfg =
     (let aps = activePlayers ps; activeCount = length aps
      in if activeCount = 0 then
           ([], activeCount, cfg\<lparr>lastSeenPlayers := (lastSeenPlayers cfg)(k \<mapsto> [])\<rparr>)
         else
           (let ids = currentIds aps;
                lastSet = (case lastSeenPlayers cfg k of None \<Rightarrow> [] | Some old \<Rightarrow> old);
                newJoins = collectJoins ids lastSet aps
            in (newJoins, activeCount,
                cfg\<lparr>lastSeenPlayers := (lastSeenPlayers cfg)(k \<mapsto> ids)\<rparr>)))"

text \<open>Lines 1027-1055: the message for the new joins, none when there are no joins.\<close>

definition joinMessage :: "guildcfg \<Rightarrow> lobbydef \<Rightarrow> player list \<Rightarrow> nat \<Rightarrow> message option" where
  "joinMessage cfg l newJoins activeCount =
     (if length newJoins = 0 then None
      else if length newJoins = 1 then
        Some (LobbyJoin (pingContent cfg) (displayName (hd newJoins)) (region l) (lobby l)
                activeCount)
      else
        Some (LobbyJoins (pingContent cfg) (map displayName newJoins) (region l) (lobby l)
                activeCount))"

text \<open>
  The body of \<open>for (const lobby of LOBBIES)\<close> in \<open>processJoinAlerts\<close> (lines 988-1055):
  the guards, the diff and the message to send. The last-seen set is replaced before the
  message is sent.
\<close>

definition joinLobby :: "(string \<rightharpoonup> snapshot) \<Rightarrow> lobbydef \<Rightarrow> guildcfg \<Rightarrow> message option \<times> guildcfg" where
  "joinLobby cache l cfg =
     (if alertEnabled cfg (key l) \<noteq> Some True then (None, cfg)
      else
        (case cache (key l) of
           None \<Rightarrow> (None, cfg)
         | Some snap \<Rightarrow>
             if noApi snap then (None, cfg)
             else
               (case players snap of
                  None \<Rightarrow> (None, cfg)
                | Some ps \<Rightarrow>
                    (case joinDiff (key l) ps cfg of
                       (newJoins, activeCount, cfg') \<Rightarrow>
                         (joinMessage cfg l newJoins activeCount, cfg')))))"

text \<open>
  The loop over \<open>LOBBIES\<close> for one guild. \<open>sendOk k\<close> tells whether \<open>channel.send\<close>
  resolves for the message about lobby \<open>k\<close>; when it rejects, the error leaves
  \<open>processJoinAlerts\<close> and the remaining lobbies are not visited. The result lists the
  messages sent.
\<close>

fun joinLoop ::
  "(string \<rightharpoonup> snapshot) \<Rightarrow> (string \<Rightarrow> bool) \<Rightarrow> lobbydef list \<Rightarrow> guildcfg
     \<Rightarrow> message list \<times> guildcfg \<times> error option" where
  "joinLoop cache sendOk [] cfg = ([], cfg, None)"
| "joinLoop cache sendOk (l # ls) cfg =
     (case joinLobby cache l cfg of
        (None, cfg') \<Rightarrow> joinLoop cache sendOk ls cfg'
      | (Some m, cfg') \<Rightarrow>
          if sendOk (key l) then
            (case joinLoop cache sendOk ls cfg' of
               (ms, cfg'', e) \<Rightarrow> (m # ms, cfg'', e))
          else ([], cfg', Some SendFailed))"

text \<open>
  One guild in \<open>processJoinAlerts\<close>: nothing happens unless an alert channel is set and
  (\<open>channelOk\<close>) the guild and a text channel of that id are in the client's caches.
\<close>

definition processJoinAlertsGuild ::
  "(string \<rightharpoonup> snapshot) \<Rightarrow> bool \<Rightarrow> (string \<Rightarrow> bool) \<Rightarrow> guildcfg
     \<Rightarrow> message list \<times> guildcfg \<times> error option" where
  "processJoinAlertsGuild cache channelOk sendOk cfg =
     (if \<not> truthy (alertChannelId cfg) \<or> \<not> channelOk then ([], cfg, None)
      else joinLoop cache sendOk LOBBIES cfg)"

section \<open>WatchEvaluator (index.js 1061-1107)\<close>

text \<open>
  What one evaluation of a watch did: nothing, an alert that was sent, or an alert whose
  \<open>channel.send\<close> rejected (the error then leaves \<open>processWatches\<close>).
\<close>

datatype outcome = Skipped | Fired message | SendThrew message

text \<open>
  Lines 1079-1104 for one watch: \<open>now\<close> is the \<open>Date.now()\<close> read when
  \<open>processWatches\<close> starts, \<open>sendOk\<close> tells whether \<open>channel.send\<close> resolves, \<open>tSent\<close>
  is the \<open>new Date()\<close> read after it has.
\<close>

definition evaluateWatch ::
  "string \<Rightarrow> lobbydef \<Rightarrow> (string \<rightharpoonup> snapshot) \<Rightarrow> int \<Rightarrow> bool \<Rightarrow> int \<Rightarrow> watch
     \<Rightarrow> outcome \<times> watch" where
  "evaluateWatch ping lobbyDef cache now sendOk tSent w =
     (case cache (lobbyKey w) of
        None \<Rightarrow> (Skipped, w)
      | Some snap \<Rightarrow>
          if noApi snap then (Skipped, w)
          else
            (case players snap of
               None \<Rightarrow> (Skipped, w)
             | Some ps \<Rightarrow>
                 (let activeCount =
                        length (filter (\<lambda>p. case size_p p of None \<Rightarrow> False | Some x \<Rightarrow> 3 < x) ps)
                  in if int activeCount < threshold w then (Skipped, w)
                     else
                       (let intervalMs = intervalMinutes w * 60 * 1000;
                            lastMs = (case lastAlertAt w of None \<Rightarrow> 0 | Some t \<Rightarrow> t)
                        in if lastAlertAt w = None \<or> now - lastMs \<ge> intervalMs then
                             (let m = LobbyWatchAlert ping (region lobbyDef) (lobby lobbyDef)
                                        activeCount (threshold w) (intervalMinutes w)
                              in if sendOk then (Fired m, w\<lparr>lastAlertAt := Some tSent\<rparr>)
                                 else (SendThrew m, w))
                           else (Skipped, w)))))"

text \<open>
  The loop over the watches of one guild (lines 1075-1105). \<open>env i\<close> gives \<open>sendOk\<close> and
  \<open>tSent\<close> for the watch with id \<open>i\<close>. A rejected send ends the loop with the error.
\<close>

fun watchLoop ::
  "string \<Rightarrow> (string \<rightharpoonup> snapshot) \<Rightarrow> int \<Rightarrow> (int \<Rightarrow> bool \<times> int) \<Rightarrow> (int \<times> watch) list
     \<Rightarrow> message list \<times> (int \<times> watch) list \<times> error option" where
  "watchLoop ping cache now env [] = ([], [], None)"
| "watchLoop ping cache now env ((i, w) # rest) =
     (case find (\<lambda>l. key l = lobbyKey w) LOBBIES of
        None \<Rightarrow>
          (case watchLoop ping cache now env rest of
             (ms, ws, e) \<Rightarrow> (ms, (i, w) # ws, e))
      | Some lobbyDef \<Rightarrow>
          (case evaluateWatch ping lobbyDef cache now (fst (env i)) (snd (env i)) w of
             (Skipped, w') \<Rightarrow>
               (case watchLoop ping cache now env rest of
                  (ms, ws, e) \<Rightarrow> (ms, (i, w') # ws, e))
           | (Fired m, w') \<Rightarrow>
               (case watchLoop ping cache now env rest of
                  (ms, ws, e) \<Rightarrow> (m # ms, (i, w') # ws, e))
           | (SendThrew m, w') \<Rightarrow> ([], (i, w') # rest, Some SendFailed)))"

text \<open>One guild in \<open>processWatches\<close>, with the same guards as for the join alerts.\<close>

definition processWatchesGuild ::
  "(string \<rightharpoonup> snapshot) \<Rightarrow> int \<Rightarrow> bool \<Rightarrow> (int \<Rightarrow> bool \<times> int) \<Rightarrow> guildcfg
     \<Rightarrow> message list \<times> guildcfg \<times> error option" where
  "processWatchesGuild cache now channelOk env cfg =
     (if \<not> truthy (alertChannelId cfg) \<or> \<not> channelOk then ([], cfg, None)
      else
        (case watchLoop (pingContent cfg) cache now env (watches cfg) of
           (ms, ws, e) \<Rightarrow> (ms, cfg\<lparr>watches := ws\<rparr>, e)))"

section \<open>The first variant of the bot (unnamed/part_000)\<close>

text \<open>
  Lines 789-807 of part_000 for one watch: the count is the snapshot's
  \<open>playerCount || 0\<close>, and there is no test of \<open>noApi\<close> or of the player list.
\<close>

definition evaluateWatch_v0 ::
  "lobbydef \<Rightarrow> (string \<rightharpoonup> snapshot) \<Rightarrow> int \<Rightarrow> bool \<Rightarrow> int \<Rightarrow> watch \<Rightarrow> outcome \<times> watch" where
  "evaluateWatch_v0 lobbyDef cache now sendOk tSent w =
     (case cache (lobbyKey w) of
        None \<Rightarrow> (Skipped, w)
      | Some snap \<Rightarrow>
          (let playerCount' = playerCount snap
           in if playerCount' < real_of_int (threshold w) then (Skipped, w)
              else
                (let intervalMs = intervalMinutes w * 60 * 1000;
                     lastMs = (case lastAlertAt w of None \<Rightarrow> 0 | Some t \<Rightarrow> t)
                 in if lastAlertAt w = None \<or> now - lastMs \<ge> intervalMs then
                      (let m = WatchText (region lobbyDef) (lobby lobbyDef) playerCount'
                                 (threshold w) (intervalMinutes w) (id_w w)
                       in if sendOk then (Fired m, w\<lparr>lastAlertAt := Some tSent\<rparr>)
                          else (SendThrew m, w))
                    else (Skipped, w))))"

text \<open>
  Lines 727-746 of part_000: the identifiers of all players of the snapshot, whatever
  their size, and no reset for an empty lobby.
\<close>

definition joinDiff_v0 :: "string \<Rightarrow> player list \<Rightarrow> guildcfg \<Rightarrow> player list \<times> guildcfg" where
  "joinDiff_v0 k ps cfg =
     (let ids = newSet (filter truthy (map ident ps));
          lastSet = (case lastSeenPlayers cfg k of None \<Rightarrow> [] | Some old \<Rightarrow> old);
          newJoins = collectJoins ids lastSet ps
      in (newJoins, cfg\<lparr>lastSeenPlayers := (lastSeenPlayers cfg)(k \<mapsto> ids)\<rparr>))"

section \<open>LeaderboardView (index.js 277-348)\<close>

definition LB_PAGE_SIZE :: int where
  "LB_PAGE_SIZE = 5"

text \<open>\<open>array.slice(a, b)\<close> for integer arguments.\<close>

definition slice :: "'a list \<Rightarrow> int \<Rightarrow> int \<Rightarrow> 'a list" where
  "slice xs a b =
     (let n = int (length xs);
          from = (if a < 0 then max (n + a) 0 else min a n);
          to = (if b < 0 then max (n + b) 0 else min b n)
      in take (nat (to - from)) (drop (nat from) xs))"

text \<open>
  The embed, kept as the values its strings interpolate. The header lines: lobby number,
  region, \<open>snapshot.playerCount\<close>, the price line (\<open>None\<close> for "unavailable", else the
  price and the time it was cached), the time the data was pulled, \<open>currentPage + 1\<close> and
  \<open>totalPages\<close>. A field: rank, name, \<open>Math.round(p.size)\<close>, and the USD value
  (\<open>None\<close> for "(price unavailable)").
\<close>

record lbHeader =
  h_lobby :: int
  h_region :: string
  h_playersInLobby :: real
  h_solPrice :: "(real \<times> int) option"
  h_dataPulled :: int
  h_page :: int
  h_totalPages :: int

record lbField =
  f_rank :: int
  f_name :: string
  f_roundedSize :: "int option"
  f_usd :: "real option"

record lbEmbed =
  e_title :: string
  e_header :: lbHeader
  e_noPlayers :: bool
  e_fields :: "lbField list"
  e_footer :: bool

text \<open>A button with its \<open>customId\<close>: the region, the lobby number and the current page.\<close>

datatype lbButton = LbPrev string int int | LbNext string int int

text \<open>\<open>solPriceStatusLine()\<close>: unavailable when \<open>!solPriceUsd || !solPriceUpdatedAt\<close>.\<close>

definition solPriceStatusLine :: "state \<Rightarrow> (real \<times> int) option" where
  "solPriceStatusLine s =
     (case solPriceUsd s of
        None \<Rightarrow> None
      | Some p \<Rightarrow>
          (case solPriceUpdatedAt s of
             None \<Rightarrow> None
           | Some t \<Rightarrow> if p \<noteq> 0 then Some (p, t) else None))"

definition totalPagesOf :: "player list \<Rightarrow> int" where
  "totalPagesOf ps = max 1 \<lceil>real (length ps) / real_of_int LB_PAGE_SIZE\<rceil>"

definition clampPage :: "int \<Rightarrow> int \<Rightarrow> int" where
  "clampPage totalPages page =
     (let currentPage = page;
          currentPage = (if currentPage < 0 then 0 else currentPage);
          currentPage = (if currentPage > totalPages - 1 then totalPages - 1 else currentPage)
      in currentPage)"

text \<open>The callback of \<open>pagePlayers.forEach((p, index) => ...)\<close>.\<close>

definition lbFieldOf :: "int \<Rightarrow> nat \<times> player \<Rightarrow> lbField" where
  "lbFieldOf start ip =
     \<lparr>f_rank = start + int (fst ip) + 1,
      f_name = displayName (snd ip),
      f_roundedSize = map_option (\<lambda>x. \<lfloor>x + 1 / 2\<rfloor>) (size_p (snd ip)),
      f_usd = usdFromSol (snd ip)\<rparr>"

text \<open>
  \<open>buildLbEmbed(lobbyDef, snapshot, players, page)\<close>. \<open>now\<close> is the reading of
  \<open>Date.now()\<close>, used only when the snapshot has no \<open>lastFetched\<close>. The function reads
  the price variables of the state and assigns to no variable of the module.
\<close>

definition buildLbEmbed ::
  "lobbydef \<Rightarrow> snapshot \<Rightarrow> player list \<Rightarrow> int \<Rightarrow> int \<Rightarrow> state \<Rightarrow> lbEmbed \<times> lbButton list list" where
  "buildLbEmbed lobbyDef snap ps page now s =
     (let totalPages = totalPagesOf ps;
          currentPage = clampPage totalPages page;
          start = currentPage * LB_PAGE_SIZE;
          pagePlayers = slice ps start (start + LB_PAGE_SIZE);
          header = \<lparr>h_lobby = lobby lobbyDef, h_region = region lobbyDef,
                    h_playersInLobby = playerCount snap,
                    h_solPrice = solPriceStatusLine s,
                    h_dataPulled = (case lastFetched snap of Some t \<Rightarrow> t | None \<Rightarrow> now),
                    h_page = currentPage + 1, h_totalPages = totalPages\<rparr>;
          embed = \<lparr>e_title = label lobbyDef @ '' Lobby Leaderboard'',
                   e_header = header,
                   e_noPlayers = (length pagePlayers = 0),
                   e_fields = map (lbFieldOf start) (enumerate 0 pagePlayers),
                   e_footer = (length pagePlayers \<noteq> 0)\<rparr>;
          row = (if currentPage > 0
                   then [LbPrev (region lobbyDef) (lobby lobbyDef) currentPage] else [])
                @ (if currentPage < totalPages - 1
                   then [LbNext (region lobbyDef) (lobby lobbyDef) currentPage] else []);
          components = (if totalPages > 1 \<and> length row > 0 then [row] else [])
      in (embed, components))"

section \<open>Persistence of the guild configuration (unnamed/part_001 239-317)\<close>

text \<open>
  The JSON written for one guild, as \<open>JSON.parse\<close> gives it back. A field is \<open>None\<close>
  when it is missing, \<open>null\<close> or (for \<open>st_watches\<close>) not an array. A watch's
  \<open>lastAlertAt\<close> is the ISO string of the date; it is kept as the milliseconds it
  denotes, which \<open>toISOString\<close> and \<open>new Date(string)\<close> preserve.
\<close>

record storedcfg =
  st_alertChannelId :: "string option"
  st_alertEnabled :: "(string \<rightharpoonup> bool) option"
  st_watches :: "watch list option"
  st_nextWatchId :: "int option"
  st_pingRoleId :: "string option"
  st_defaultRegion :: "string option"
  st_refreshChannelId :: "string option"

text \<open>\<open>x || null\<close> on an optional string.\<close>

definition orNull :: "string option \<Rightarrow> string option" where
  "orNull v = (if truthy v then v else None)"

text \<open>\<open>n || 1\<close> on an optional number.\<close>

definition orOne :: "int option \<Rightarrow> int" where
  "orOne v = (case v of None \<Rightarrow> 1 | Some n \<Rightarrow> if n \<noteq> 0 then n else 1)"

text \<open>The object \<open>saveGuildConfigsToDisk\<close> builds for one guild (lines 289-303).\<close>

definition saveCfg :: "guildcfg \<Rightarrow> storedcfg" where
  "saveCfg cfg =
     \<lparr>st_alertChannelId = orNull (alertChannelId cfg),
      st_alertEnabled = Some (alertEnabled cfg),
      st_watches =
        Some (map (\<lambda>w. \<lparr>id_w = id_w w, lobbyKey = lobbyKey w, threshold = threshold w,
                         intervalMinutes = intervalMinutes w, lastAlertAt = lastAlertAt w\<rparr>)
                (map snd (watches cfg))),
      st_nextWatchId = Some (orOne (Some (nextWatchId cfg))),
      st_pingRoleId = orNull (pingRoleId cfg),
      st_defaultRegion = orNull (defaultRegion cfg),
      st_refreshChannelId = orNull (refreshChannelId cfg)\<rparr>"

text \<open>The configuration \<open>loadGuildConfigsFromDisk\<close> builds from one stored object (lines 249-273).\<close>

definition loadCfg :: "storedcfg \<Rightarrow> guildcfg" where
  "loadCfg stored =
     \<lparr>alertChannelId = orNull (st_alertChannelId stored),
      alertEnabled = (case st_alertEnabled stored of None \<Rightarrow> Map.empty | Some m \<Rightarrow> m),
      lastSeenPlayers = Map.empty,
      watches =
        (case st_watches stored of
           None \<Rightarrow> []
         | Some ws \<Rightarrow>
             foldl (\<lambda>acc w. mapSet (id_w w)
                      \<lparr>id_w = id_w w, lobbyKey = lobbyKey w, threshold = threshold w,
                       intervalMinutes = intervalMinutes w, lastAlertAt = lastAlertAt w\<rparr> acc)
               [] ws),
      nextWatchId = orOne (st_nextWatchId stored),
      pingRoleId = orNull (st_pingRoleId stored),
      defaultRegion = orNull (st_defaultRegion stored),
      refreshChannelId = orNull (st_refreshChannelId stored),
      lastRefreshMessageId = None\<rparr>"

text \<open>
  The whole file: one stored object per guild id, in the order of \<open>guildConfigs\<close>.
  Loading clears \<open>guildConfigs\<close> and sets one entry per stored object; \<open>None\<close> stands
  for a file that is missing, empty or not JSON, which leaves \<open>guildConfigs\<close> as it is.
\<close>

definition saveGuildConfigsToDisk :: "(string \<times> guildcfg) list \<Rightarrow> (string \<times> storedcfg) list" where
  "saveGuildConfigsToDisk guildConfigs = map (\<lambda>(guildId, cfg). (guildId, saveCfg cfg)) guildConfigs"

definition loadGuildConfigsFromDisk ::
  "(string \<times> storedcfg) list option \<Rightarrow> (string \<times> guildcfg) list \<Rightarrow> (string \<times> guildcfg) list" where
  "loadGuildConfigsFromDisk file guildConfigs =
     (case file of
        None \<Rightarrow> guildConfigs
      | Some parsed \<Rightarrow>
          foldl (\<lambda>acc (guildId, stored). mapSet guildId (loadCfg stored) acc) [] parsed)"

section \<open>States the fetcher can reach\<close>

text \<open>
  The placeholder of a lobby without url: no players, count zero, marked \<open>noApi\<close>.
\<close>

definition placeholder :: "snapshot \<Rightarrow> bool" where
  "placeholder e = (playerCount e = 0 \<and> players e = Some [] \<and> noApi e)"

text \<open>
  The cache is only written by \<open>fetchLobbyPlayers\<close>, which the program calls with entries
  of \<open>LOBBIES\<close> (from the polling loop, and through \<open>getLobbySnapshot\<close> after
  \<open>findLobby\<close>). It starts empty. The price variables are written by the price refresher
  at any time.
\<close>

inductive reachable :: "state \<Rightarrow> bool" where
  start: "lobbyCache s = Map.empty \<Longrightarrow> reachable s"
| fetch: "reachable s \<Longrightarrow> l \<in> set LOBBIES \<Longrightarrow> reachable (snd (fetchLobbyPlayers l res tS tF s))"
| get: "reachable s \<Longrightarrow> l \<in> set LOBBIES \<Longrightarrow> reachable (snd (getLobbySnapshot l now res tS tF s))"
| price: "reachable s \<Longrightarrow> reachable (s\<lparr>solPriceUsd := p, solPriceUpdatedAt := u\<rparr>)"

text \<open>What holds of every cache entry in a reachable state.\<close>

definition cacheOk :: "state \<Rightarrow> bool" where
  "cacheOk s =
     (\<forall>l e. l \<in> set LOBBIES \<and> lobbyCache s (key l) = Some e \<longrightarrow>
        lastFetched e \<noteq> None \<and> players e \<noteq> None \<and> (\<not> truthy (url l) \<longrightarrow> placeholder e))"

section \<open>Writes to the last-seen sets outside the polling loop\<close>

text \<open>The configuration \<open>getGuildConfig\<close> creates for a guild it has not seen (index.js 180-187).\<close>

definition newGuildConfig :: guildcfg where
  "newGuildConfig =
     \<lparr>alertChannelId = None, alertEnabled = Map.empty, lastSeenPlayers = Map.empty,
      watches = [], nextWatchId = 1, pingRoleId = None, defaultRegion = None,
      refreshChannelId = None, lastRefreshMessageId = None\<rparr>"

text \<open>
  What \<open>,alert on\<close> (index.js 567-571) and \<open>,alert off\<close> (591-592) write for the lobby
  key, once their arguments have been accepted.
\<close>

definition alertOn :: "string \<Rightarrow> guildcfg \<Rightarrow> guildcfg" where
  "alertOn k cfg =
     (let cfg1 = cfg\<lparr>alertEnabled := (alertEnabled cfg)(k \<mapsto> True)\<rparr>
      in case lastSeenPlayers cfg1 k of
           None \<Rightarrow> cfg1\<lparr>lastSeenPlayers := (lastSeenPlayers cfg1)(k \<mapsto> [])\<rparr>
         | Some old \<Rightarrow> cfg1)"

definition alertOff :: "string \<Rightarrow> guildcfg \<Rightarrow> guildcfg" where
  "alertOff k cfg =
     cfg\<lparr>alertEnabled := (alertEnabled cfg)(k \<mapsto> False),
         lastSeenPlayers := (lastSeenPlayers cfg)(k \<mapsto> [])\<rparr>"

text \<open>Every identifier in every last-seen set of the configuration is truthy.\<close>

definition seenTruthy :: "guildcfg \<Rightarrow> bool" where
  "seenTruthy cfg = (\<forall>k ids i. lastSeenPlayers cfg k = Some ids \<and> i \<in> set ids \<longrightarrow> truthy i)"

section \<open>Configurations the commands build\<close>

text \<open>
  What the commands keep true of a configuration: the keys of the \<open>Map\<close> of watches are
  distinct and each watch is stored under its own id (\<open>,watch add\<close> and the loader both
  call \<open>watches.set(id, {id, ...})\<close>), the counter of watch ids is not 0 (it starts at 1
  and is incremented), and a channel, role or region that is set is not the empty string.
\<close>

definition wfCfg :: "guildcfg \<Rightarrow> bool" where
  "wfCfg cfg =
     (distinct (map fst (watches cfg))
      \<and> list_all (\<lambda>iw. id_w (snd iw) = fst iw) (watches cfg)
      \<and> nextWatchId cfg \<noteq> 0
      \<and> alertChannelId cfg \<noteq> Some [] \<and> pingRoleId cfg \<noteq> Some []
      \<and> defaultRegion cfg \<noteq> Some [] \<and> refreshChannelId cfg \<noteq> Some [])"

text \<open>What loading leaves of a configuration that was saved: the runtime-only fields are reset.\<close>

definition restored :: "guildcfg \<Rightarrow> guildcfg" where
  "restored cfg = cfg\<lparr>lastSeenPlayers := Map.empty, lastRefreshMessageId := None\<rparr>"

section \<open>Example inputs\<close>

text \<open>Concrete inputs for the instances below.\<close>

definition ex_player :: "string \<Rightarrow> real \<Rightarrow> player" where
  "ex_player i x =
     \<lparr>privyId = Some i, id_p = None, name = None, size_p = Some x,
      monetaryValue = None, usdFromSol = None\<rparr>"

definition ex_snapshot :: "string \<Rightarrow> player list \<Rightarrow> snapshot" where
  "ex_snapshot k ps =
     \<lparr>serverId = k, playerCount = real (length ps), players = Some ps,
      timestamp = 0, lastFetched = Some 0, noApi = False\<rparr>"

definition ex_state :: "(string \<rightharpoonup> snapshot) \<Rightarrow> state" where
  "ex_state c = \<lparr>lobbyCache = c, solPriceUsd = None, solPriceUpdatedAt = None, netCalls = 0\<rparr>"

definition ex_body :: body where
  "ex_body =
     \<lparr>success = True, players_b = Some [Some (ex_player ''A'' 10)], serverId_b = None,
      playerCount_b = None, timestamp_b = None\<rparr>"

definition ex_us1 :: lobbydef where
  "ex_us1 =
     \<lparr>key = ''us-1'', region = ''us'', lobby = 1, label = ''US $1'',
      url = Some ''https://damnbruh-game-server-instance-1-us.onrender.com/players'',
      noApi_l = False\<rparr>"

definition ex_us5 :: lobbydef where
  "ex_us5 =
     \<lparr>key = ''us-5'', region = ''us'', lobby = 5, label = ''US $5'',
      url = Some ''https://damnbruh-game-server-instance-5-us.onrender.com/players'',
      noApi_l = False\<rparr>"

definition ex_eu5 :: lobbydef where
  "ex_eu5 =
     \<lparr>key = ''eu-5'', region = ''eu'', lobby = 5, label = ''EU $5'',
      url = None, noApi_l = True\<rparr>"

definition ex_players5 :: "player list" where
  "ex_players5 =
     [ex_player ''A'' 10, ex_player ''B'' 12, ex_player ''C'' 7, ex_player ''D'' 4,
      ex_player ''E'' 30]"

definition ex_watch :: watch where
  "ex_watch =
     \<lparr>id_w = 1, lobbyKey = ''us-5'', threshold = 5, intervalMinutes = 2, lastAlertAt = None\<rparr>"

text \<open>A lobby whose server reports 5 players, of which one is alive (size 10).\<close>

definition ex_snapshot_idle :: snapshot where
  "ex_snapshot_idle =
     \<lparr>serverId = ''us-5'', playerCount = 5,
      players = Some [ex_player ''A'' 10, ex_player ''B'' 0],
      timestamp = 0, lastFetched = Some 0, noApi = False\<rparr>"

definition ex_cfg :: guildcfg where
  "ex_cfg =
     \<lparr>alertChannelId = Some ''900'', alertEnabled = [''us-5'' \<mapsto> True],
      lastSeenPlayers = Map.empty, watches = [(1, ex_watch)], nextWatchId = 2,
      pingRoleId = None, defaultRegion = None, refreshChannelId = None,
      lastRefreshMessageId = None\<rparr>"

text \<open>The configuration with the last-seen set {A, B} for \<open>us-5\<close>.\<close>

definition ex_cfgAB :: guildcfg where
  "ex_cfgAB = ex_cfg\<lparr>lastSeenPlayers := [''us-5'' \<mapsto> [Some ''A'', Some ''B'']]\<rparr>"

text \<open>An active player without identifier.\<close>

definition ex_anon :: player where
  "ex_anon =
     \<lparr>privyId = None, id_p = Some [], name = Some ''ghost'', size_p = Some 10,
      monetaryValue = None, usdFromSol = None\<rparr>"

text \<open>Twelve active players, sorted by size.\<close>

definition ex_players12 :: "player list" where
  "ex_players12 =
     [ex_player ''P1'' 120, ex_player ''P2'' 110, ex_player ''P3'' 100, ex_player ''P4'' 90,
      ex_player ''P5'' 80, ex_player ''P6'' 70, ex_player ''P7'' 60, ex_player ''P8'' 50,
      ex_player ''P9'' 40, ex_player ''P10'' 30, ex_player ''P11'' 20, ex_player ''P12'' 10]"

lemma ex_lobbies: "ex_us1 \<in> set LOBBIES" "ex_us5 \<in> set LOBBIES" "ex_eu5 \<in> set LOBBIES"
  by (simp_all add: LOBBIES_def ex_us1_def ex_us5_def ex_eu5_def)

section \<open>Failed fetches\<close>

lemma fetchTry_failures:
  "fetchTry lobbyDef Rejected tS tF price = Inl RequestFailed"
  "fetchTry lobbyDef (Resolved None) tS tF price = Inl ApiNonSuccess"
  "\<not> success d \<Longrightarrow> fetchTry lobbyDef (Resolved (Some d)) tS tF price = Inl ApiNonSuccess"
  by (simp_all add: fetchTry_def)

lemma fetchLobbyPlayers_error:
  assumes "truthy (url lobbyDef)"
    and "fetchTry lobbyDef res tS tF (solPriceUsd s) = Inl err"
  shows "fetchLobbyPlayers lobbyDef res tS tF s = (None, s\<lparr>netCalls := Suc (netCalls s)\<rparr>)"
  using assms by (simp add: fetchLobbyPlayers_def Let_def)

lemma fetchLobbyPlayers_ok:
  assumes "truthy (url lobbyDef)"
    and "fetchTry lobbyDef res tS tF (solPriceUsd s) = Inr snap"
  shows "fetchLobbyPlayers lobbyDef res tS tF s =
           (Some snap, s\<lparr>netCalls := Suc (netCalls s),
                           lobbyCache := (lobbyCache s)(key lobbyDef \<mapsto> snap)\<rparr>)"
  using assms by (simp add: fetchLobbyPlayers_def Let_def)

lemma fetchTry_lastFetched:
  "fetchTry lobbyDef res tS tF price = Inr snap \<Longrightarrow>
     lastFetched snap = Some tF \<and> players snap \<noteq> None \<and> \<not> noApi snap"
  by (auto simp: fetchTry_def Let_def split: response.splits option.splits if_splits sum.splits)

text \<open>
  C4. For a lobby with a url, when the request fails (the promise rejects) or the
  response is malformed (no body, or a missing or false \<open>success\<close>), \<open>fetchLobbyPlayers\<close>
  returns \<open>null\<close> and leaves the whole cache as it was: no entry is written or cleared.
  Only the count of requests sent moves. The function has no error result: the
  \<open>catch\<close> swallows every error of the \<open>try\<close> block.
\<close>

theorem C4_failed_fetch_keeps_cache:
  assumes "truthy (url lobbyDef)"
    and "res = Rejected \<or> res = Resolved None \<or> (\<exists>d. res = Resolved (Some d) \<and> \<not> success d)"
  shows "fst (fetchLobbyPlayers lobbyDef res tS tF s) = None
       \<and> lobbyCache (snd (fetchLobbyPlayers lobbyDef res tS tF s)) = lobbyCache s
       \<and> snd (fetchLobbyPlayers lobbyDef res tS tF s) = s\<lparr>netCalls := Suc (netCalls s)\<rparr>"
proof -
  from assms(2) obtain err where "fetchTry lobbyDef res tS tF (solPriceUsd s) = Inl err"
    using fetchTry_failures by blast
  with assms(1) show ?thesis
    by (simp add: fetchLobbyPlayers_error)
qed

text \<open>
  The instance: \<open>us-1\<close> has a cached snapshot with player A, and the next request times
  out; then the body says \<open>success: false\<close>. Both times the result is \<open>null\<close> and the
  entry is still there.
\<close>

theorem C4_failed_fetch_witness:
  "truthy (url ex_us1)
   \<and> fst (fetchLobbyPlayers ex_us1 Rejected 7000 7001
            (ex_state [''us-1'' \<mapsto> ex_snapshot ''us-1'' [ex_player ''A'' 10]])) = None
   \<and> lobbyCache (snd (fetchLobbyPlayers ex_us1 (Resolved (Some (ex_body\<lparr>success := False\<rparr>))) 7000 7001
            (ex_state [''us-1'' \<mapsto> ex_snapshot ''us-1'' [ex_player ''A'' 10]]))) ''us-1''
       = Some (ex_snapshot ''us-1'' [ex_player ''A'' 10])"
proof -
  have u: "truthy (url ex_us1)"
    by (simp add: ex_us1_def truthy_def)
  have b: "\<not> success (ex_body\<lparr>success := False\<rparr>)"
    by simp
  show ?thesis
    using u
      C4_failed_fetch_keeps_cache [OF u, of Rejected 7000 7001
        "ex_state [''us-1'' \<mapsto> ex_snapshot ''us-1'' [ex_player ''A'' 10]]"]
      C4_failed_fetch_keeps_cache [OF u, of "Resolved (Some (ex_body\<lparr>success := False\<rparr>))" 7000 7001
        "ex_state [''us-1'' \<mapsto> ex_snapshot ''us-1'' [ex_player ''A'' 10]]"]
      b
    by (simp add: ex_state_def)
qed

section \<open>The freshness window\<close>

lemma getLobbySnapshot_hit:
  assumes "lobbyCache s (key l) = Some e" and "lastFetched e = Some t" and "now - t < 5000"
  shows "getLobbySnapshot l now res tS tF s = (Some e, s)"
  using assms by (simp add: getLobbySnapshot_def isFresh_def Let_def)

lemma getLobbySnapshot_miss:
  assumes "\<not> isFresh (lobbyCache s (key l)) now"
  shows "getLobbySnapshot l now res tS tF s = fetchLobbyPlayers l res tS tF s"
  using assms by (simp add: getLobbySnapshot_def Let_def)

text \<open>
  C3, as it is written, fails: two calls inside the window do not always send exactly one
  request. A failed fetch stores nothing: with an empty cache, a first call (at 1000)
  that times out and a second call (at 2000) that is answered send two requests. And a
  lobby without url never needs a request: two calls for \<open>eu-5\<close> one second apart, the
  second returning what the first stored, send none.
\<close>

theorem C3_two_calls_counterexample:
  "fst (getLobbySnapshot ex_us1 1000 Rejected 1000 1001 (ex_state Map.empty)) = None
   \<and> netCalls (snd (getLobbySnapshot ex_us1 2000 (Resolved (Some ex_body)) 2000 2001
        (snd (getLobbySnapshot ex_us1 1000 Rejected 1000 1001 (ex_state Map.empty))))) = 2
   \<and> fst (getLobbySnapshot ex_eu5 2000 Rejected 2000 2001
        (snd (getLobbySnapshot ex_eu5 1000 Rejected 1000 1001 (ex_state Map.empty))))
       = fst (getLobbySnapshot ex_eu5 1000 Rejected 1000 1001 (ex_state Map.empty))
   \<and> netCalls (snd (getLobbySnapshot ex_eu5 2000 Rejected 2000 2001
        (snd (getLobbySnapshot ex_eu5 1000 Rejected 1000 1001 (ex_state Map.empty))))) = 0"
  by (simp add: getLobbySnapshot_def isFresh_def fetchLobbyPlayers_def fetchTry_def Let_def
      ex_state_def ex_us1_def ex_eu5_def ex_body_def truthy_def)

text \<open>
  C3, amended. A cached snapshot whose \<open>lastFetched\<close> is less than 5000 ms before the
  reading of the clock is returned as it is, and the state (the cache and the count of
  requests) does not change. Hence, when a call for a lobby with a url finds no fresh
  entry and its fetch succeeds, a second call for the same lobby less than 5000 ms after
  the stored \<open>lastFetched\<close> returns the stored snapshot, and the two calls together have
  sent exactly one request.
\<close>

theorem C3_fresh_cache_no_fetch:
  "(lobbyCache s (key l) = Some e \<and> lastFetched e = Some t \<and> now - t < 5000
      \<longrightarrow> getLobbySnapshot l now res tS tF s = (Some e, s))
   \<and> (truthy (url l) \<and> \<not> isFresh (lobbyCache s (key l)) now
        \<and> fetchTry l res tS tF (solPriceUsd s) = Inr snap \<and> now2 - tF < 5000
      \<longrightarrow> fst (getLobbySnapshot l now res tS tF s) = Some snap
        \<and> getLobbySnapshot l now2 res2 tS2 tF2 (snd (getLobbySnapshot l now res tS tF s))
            = (Some snap, snd (getLobbySnapshot l now res tS tF s))
        \<and> netCalls (snd (getLobbySnapshot l now2 res2 tS2 tF2
                         (snd (getLobbySnapshot l now res tS tF s)))) = netCalls s + 1)"
proof (intro conjI impI)
  assume "lobbyCache s (key l) = Some e \<and> lastFetched e = Some t \<and> now - t < 5000"
  then show "getLobbySnapshot l now res tS tF s = (Some e, s)"
    by (simp add: getLobbySnapshot_hit)
next
  assume a: "truthy (url l) \<and> \<not> isFresh (lobbyCache s (key l)) now
        \<and> fetchTry l res tS tF (solPriceUsd s) = Inr snap \<and> now2 - tF < 5000"
  let ?s1 = "s\<lparr>netCalls := Suc (netCalls s), lobbyCache := (lobbyCache s)(key l \<mapsto> snap)\<rparr>"
  from a have first: "getLobbySnapshot l now res tS tF s = (Some snap, ?s1)"
    by (simp add: getLobbySnapshot_miss fetchLobbyPlayers_ok)
  from a have lf: "lastFetched snap = Some tF"
    using fetchTry_lastFetched by blast
  have second: "getLobbySnapshot l now2 res2 tS2 tF2 ?s1 = (Some snap, ?s1)"
    by (rule getLobbySnapshot_hit [where t = tF]) (use lf a in simp_all)
  show "fst (getLobbySnapshot l now res tS tF s) = Some snap"
    by (simp add: first)
  show "getLobbySnapshot l now2 res2 tS2 tF2 (snd (getLobbySnapshot l now res tS tF s))
            = (Some snap, snd (getLobbySnapshot l now res tS tF s))"
    by (simp add: first second)
  show "netCalls (snd (getLobbySnapshot l now2 res2 tS2 tF2
                         (snd (getLobbySnapshot l now res tS tF s)))) = netCalls s + 1"
    by (simp add: first second)
qed

text \<open>
  The instance: the cache is empty, the call at 1000 is answered at 1200 with player A,
  and the call at 6100 (4900 ms after the answer) returns the same snapshot; one request
  has been sent.
\<close>

theorem C3_fresh_cache_witness:
  "fst (getLobbySnapshot ex_us1 6100 Rejected 6100 6101
          (snd (getLobbySnapshot ex_us1 1000 (Resolved (Some ex_body)) 1200 1200 (ex_state Map.empty))))
     = fst (getLobbySnapshot ex_us1 1000 (Resolved (Some ex_body)) 1200 1200 (ex_state Map.empty))
   \<and> (\<exists>snap. fst (getLobbySnapshot ex_us1 1000 (Resolved (Some ex_body)) 1200 1200 (ex_state Map.empty))
          = Some snap)
   \<and> netCalls (snd (getLobbySnapshot ex_us1 6100 Rejected 6100 6101
          (snd (getLobbySnapshot ex_us1 1000 (Resolved (Some ex_body)) 1200 1200 (ex_state Map.empty)))))
     = 1"
proof -
  obtain snap where ok: "fetchTry ex_us1 (Resolved (Some ex_body)) 1200 1200
                           (solPriceUsd (ex_state Map.empty)) = Inr snap"
    by (simp add: fetchTry_def ex_body_def Let_def)
  have pre: "truthy (url ex_us1) \<and> \<not> isFresh (lobbyCache (ex_state Map.empty) (key ex_us1)) 1000
        \<and> fetchTry ex_us1 (Resolved (Some ex_body)) 1200 1200 (solPriceUsd (ex_state Map.empty)) = Inr snap
        \<and> (6100::int) - 1200 < 5000"
    using ok by (simp add: ex_us1_def truthy_def isFresh_def ex_state_def)
  let ?first = "getLobbySnapshot ex_us1 1000 (Resolved (Some ex_body)) 1200 1200 (ex_state Map.empty)"
  let ?second = "getLobbySnapshot ex_us1 6100 Rejected 6100 6101 (snd ?first)"
  from pre
    C3_fresh_cache_no_fetch [of "ex_state Map.empty" ex_us1 undefined undefined 1000
      "Resolved (Some ex_body)" 1200 1200 snap 6100 Rejected 6100 6101]
  have A: "fst ?first = Some snap"
    and B: "?second = (Some snap, snd ?first)"
    and C: "netCalls (snd ?second) = netCalls (ex_state Map.empty) + 1"
    by blast+
  have n0: "netCalls (ex_state Map.empty) = 0"
    by (simp add: ex_state_def)
  show ?thesis
  proof (intro conjI)
    show "fst ?second = fst ?first"
      by (simp add: A B)
    show "\<exists>snap. fst ?first = Some snap"
      using A by blast
    show "netCalls (snd ?second) = 1"
      using C n0 by simp
  qed
qed

section \<open>Lobbies without endpoint\<close>

lemma LOBBIES_key_url:
  "l \<in> set LOBBIES \<Longrightarrow> l' \<in> set LOBBIES \<Longrightarrow> key l = key l' \<Longrightarrow> url l = url l'"
  by (auto simp: LOBBIES_def)

lemma cacheOk_update:
  assumes ok: "cacheOk s" and l: "l \<in> set LOBBIES"
    and snap: "lastFetched snap \<noteq> None" "players snap \<noteq> None"
      "\<not> truthy (url l) \<longrightarrow> placeholder snap"
    and s': "lobbyCache s' = (lobbyCache s)(key l \<mapsto> snap)"
  shows "cacheOk s'"
  unfolding cacheOk_def
proof (intro allI impI)
  fix l' e
  assume a: "l' \<in> set LOBBIES \<and> lobbyCache s' (key l') = Some e"
  show "lastFetched e \<noteq> None \<and> players e \<noteq> None \<and> (\<not> truthy (url l') \<longrightarrow> placeholder e)"
  proof (cases "key l' = key l")
    case True
    with a l have "url l' = url l"
      using LOBBIES_key_url [of l' l] by blast
    moreover from True a s' have "e = snap"
      by simp
    ultimately show ?thesis
      using snap by simp
  next
    case False
    with a s' have "l' \<in> set LOBBIES \<and> lobbyCache s (key l') = Some e"
      by simp
    with ok show ?thesis
      unfolding cacheOk_def by blast
  qed
qed

lemma cacheOk_same:
  assumes "cacheOk s" and "lobbyCache s' = lobbyCache s"
  shows "cacheOk s'"
  using assms unfolding cacheOk_def by simp

lemma fetchLobbyPlayers_cacheOk:
  assumes "cacheOk s" and "l \<in> set LOBBIES"
  shows "cacheOk (snd (fetchLobbyPlayers l res tS tF s))"
proof (cases "truthy (url l)")
  case True
  show ?thesis
  proof (cases "fetchTry l res tS tF (solPriceUsd s)")
    case (Inl err)
    with True have "lobbyCache (snd (fetchLobbyPlayers l res tS tF s)) = lobbyCache s"
      by (simp add: fetchLobbyPlayers_error)
    with assms(1) show ?thesis
      by (rule cacheOk_same)
  next
    case (Inr snap)
    have snap: "lastFetched snap \<noteq> None" "players snap \<noteq> None"
      using fetchTry_lastFetched [OF Inr] by simp_all
    have eq: "lobbyCache (snd (fetchLobbyPlayers l res tS tF s)) = (lobbyCache s)(key l \<mapsto> snap)"
      by (simp add: fetchLobbyPlayers_ok [OF True Inr])
    have ph: "\<not> truthy (url l) \<longrightarrow> placeholder snap"
      using True by simp
    show ?thesis
      by (rule cacheOk_update [OF assms(1) assms(2) snap ph eq])
  qed
next
  case False
  let ?p = "\<lparr>serverId = key l, playerCount = 0, players = Some [], timestamp = tS,
             lastFetched = Some tF, noApi = True\<rparr>"
  have eq: "lobbyCache (snd (fetchLobbyPlayers l res tS tF s)) = (lobbyCache s)(key l \<mapsto> ?p)"
    using False by (simp add: fetchLobbyPlayers_def Let_def)
  have p: "lastFetched ?p \<noteq> None" "players ?p \<noteq> None" "\<not> truthy (url l) \<longrightarrow> placeholder ?p"
    by (simp_all add: placeholder_def)
  show ?thesis
    by (rule cacheOk_update [OF assms(1) assms(2) p eq])
qed

lemma getLobbySnapshot_cacheOk:
  assumes "cacheOk s" and "l \<in> set LOBBIES"
  shows "cacheOk (snd (getLobbySnapshot l now res tS tF s))"
  using assms by (simp add: getLobbySnapshot_def Let_def fetchLobbyPlayers_cacheOk)

lemma reachable_cacheOk: "reachable s \<Longrightarrow> cacheOk s"
proof (induction rule: reachable.induct)
  case (start s)
  then show ?case by (simp add: cacheOk_def)
next
  case (fetch s l res tS tF)
  then show ?case by (simp add: fetchLobbyPlayers_cacheOk)
next
  case (get s l now res tS tF)
  then show ?case by (simp add: getLobbySnapshot_cacheOk)
next
  case (price s p u)
  then show ?case by (simp add: cacheOk_def)
qed

text \<open>
  C5. For every entry of \<open>LOBBIES\<close> without url, in every state the program can reach
  (the cache empty, stale or fresh, after any number of fetches and calls for any
  lobbies), \<open>getLobbySnapshot\<close> returns a snapshot with player count zero, an empty player
  list and \<open>noApi\<close> set, and the count of requests sent stays as it was. The state after
  the call is reachable again, so the same holds for every further call.
\<close>

theorem C5_unsupported_lobby_placeholder:
  assumes "reachable s" and "l \<in> set LOBBIES" and "\<not> truthy (url l)"
  shows "\<exists>e. fst (getLobbySnapshot l now res tS tF s) = Some e
          \<and> playerCount e = 0 \<and> players e = Some [] \<and> noApi e
          \<and> netCalls (snd (getLobbySnapshot l now res tS tF s)) = netCalls s
          \<and> reachable (snd (getLobbySnapshot l now res tS tF s))"
proof -
  have ok: "cacheOk s"
    using assms(1) by (rule reachable_cacheOk)
  have again: "reachable (snd (getLobbySnapshot l now res tS tF s))"
    using assms(1,2) by (rule reachable.get)
  show ?thesis
  proof (cases "isFresh (lobbyCache s (key l)) now")
    case True
    then obtain e where e: "lobbyCache s (key l) = Some e"
      by (auto simp: isFresh_def split: option.splits)
    with ok assms(2,3) have "placeholder e"
      by (auto simp: cacheOk_def)
    with True e again show ?thesis
      by (simp add: getLobbySnapshot_def Let_def placeholder_def)
  next
    case False
    with assms(3) again show ?thesis
      by (simp add: getLobbySnapshot_def fetchLobbyPlayers_def Let_def)
  qed
qed

text \<open>
  The instance: \<open>us-1\<close> has been fetched and \<open>eu-5\<close> asked for once; asking for \<open>eu-5\<close>
  again, two seconds or a minute later, gives the placeholder, and the only request ever
  sent is the one to \<open>us-1\<close>.
\<close>

theorem C5_unsupported_lobby_witness:
  "reachable (snd (getLobbySnapshot ex_eu5 3000 Rejected 3000 3000
       (snd (fetchLobbyPlayers ex_us1 (Resolved (Some ex_body)) 1000 1000 (ex_state Map.empty)))))
   \<and> ex_eu5 \<in> set LOBBIES \<and> \<not> truthy (url ex_eu5)
   \<and> (\<exists>e. fst (getLobbySnapshot ex_eu5 5000 (Resolved (Some ex_body)) 5000 5000
       (snd (getLobbySnapshot ex_eu5 3000 Rejected 3000 3000
         (snd (fetchLobbyPlayers ex_us1 (Resolved (Some ex_body)) 1000 1000 (ex_state Map.empty))))))
         = Some e \<and> playerCount e = 0 \<and> players e = Some [] \<and> noApi e)
   \<and> netCalls (snd (getLobbySnapshot ex_eu5 63000 (Resolved (Some ex_body)) 63000 63000
       (snd (getLobbySnapshot ex_eu5 3000 Rejected 3000 3000
         (snd (fetchLobbyPlayers ex_us1 (Resolved (Some ex_body)) 1000 1000 (ex_state Map.empty)))))))
     = 1"
proof -
  let ?s1 = "snd (fetchLobbyPlayers ex_us1 (Resolved (Some ex_body)) 1000 1000 (ex_state Map.empty))"
  let ?s2 = "snd (getLobbySnapshot ex_eu5 3000 Rejected 3000 3000 ?s1)"
  have r0: "reachable (ex_state Map.empty)"
    by (rule reachable.start) (simp add: ex_state_def)
  have r1: "reachable ?s1"
    using r0 ex_lobbies(1) by (rule reachable.fetch)
  have r2: "reachable ?s2"
    using r1 ex_lobbies(3) by (rule reachable.get)
  have nu: "\<not> truthy (url ex_eu5)"
    by (simp add: ex_eu5_def truthy_def)
  have n1: "netCalls ?s1 = 1"
    by (simp add: fetchLobbyPlayers_def fetchTry_def Let_def ex_us1_def ex_body_def
        ex_state_def truthy_def)
  have n2: "netCalls ?s2 = netCalls ?s1"
    using C5_unsupported_lobby_placeholder [OF r1 ex_lobbies(3) nu, of 3000 Rejected 3000 3000]
    by blast
  from C5_unsupported_lobby_placeholder [OF r2 ex_lobbies(3) nu, of 5000 "Resolved (Some ex_body)" 5000 5000]
  have a: "\<exists>e. fst (getLobbySnapshot ex_eu5 5000 (Resolved (Some ex_body)) 5000 5000 ?s2) = Some e
             \<and> playerCount e = 0 \<and> players e = Some [] \<and> noApi e"
    by blast
  from C5_unsupported_lobby_placeholder [OF r2 ex_lobbies(3) nu, of 63000 "Resolved (Some ex_body)" 63000 63000]
  have b: "netCalls (snd (getLobbySnapshot ex_eu5 63000 (Resolved (Some ex_body)) 63000 63000 ?s2))
             = netCalls ?s2"
    by blast
  have c: "netCalls (snd (getLobbySnapshot ex_eu5 63000 (Resolved (Some ex_body)) 63000 63000 ?s2)) = 1"
    using b n2 n1 by (rule trans [OF trans])
  show ?thesis
    using r2 ex_lobbies(3) nu a c by (intro conjI)
qed

section \<open>Watches\<close>

lemma evaluateWatch_below:
  assumes "cache (lobbyKey w) = Some snap" and "\<not> noApi snap" and "players snap = Some ps"
    and "int (length (activePlayers ps)) < threshold w"
  shows "evaluateWatch ping lobbyDef cache now sendOk tSent w = (Skipped, w)"
  using assms by (simp add: evaluateWatch_def activePlayers_def Let_def)

lemma evaluateWatch_cooling:
  assumes "cache (lobbyKey w) = Some snap" and "\<not> noApi snap" and "players snap = Some ps"
    and "lastAlertAt w = Some t" and "now - t < intervalMinutes w * 60000"
  shows "evaluateWatch ping lobbyDef cache now sendOk tSent w = (Skipped, w)"
  using assms by (simp add: evaluateWatch_def activePlayers_def Let_def)

lemma evaluateWatch_due:
  assumes "cache (lobbyKey w) = Some snap" and "\<not> noApi snap" and "players snap = Some ps"
    and "threshold w \<le> int (length (activePlayers ps))"
    and "case lastAlertAt w of None \<Rightarrow> True | Some t \<Rightarrow> intervalMinutes w * 60000 \<le> now - t"
  shows "evaluateWatch ping lobbyDef cache now sendOk tSent w =
           (if sendOk
            then (Fired (LobbyWatchAlert ping (region lobbyDef) (lobby lobbyDef)
                           (length (activePlayers ps)) (threshold w) (intervalMinutes w)),
                  w\<lparr>lastAlertAt := Some tSent\<rparr>)
            else (SendThrew (LobbyWatchAlert ping (region lobbyDef) (lobby lobbyDef)
                           (length (activePlayers ps)) (threshold w) (intervalMinutes w)), w))"
  using assms
  by (cases "lastAlertAt w") (simp_all add: evaluateWatch_def activePlayers_def Let_def)

text \<open>
  C1, as it is written, fails when the send is rejected. The watch is due (5 active
  players, threshold 5, never fired), so the alert is handed to \<open>channel.send\<close>; the
  promise rejects, the assignment after the \<open>await\<close> is not reached, and \<open>lastAlertAt\<close>
  is still \<open>null\<close>: the watch has fired and \<open>lastAlertAt\<close> is not the current time.
\<close>

theorem C1_rejected_send_counterexample:
  "fst (evaluateWatch [] ex_us5 [''us-5'' \<mapsto> ex_snapshot ''us-5'' ex_players5]
          1000000 False 1000200 ex_watch)
     = SendThrew (LobbyWatchAlert [] ''us'' 5 5 5 2)
   \<and> lastAlertAt (snd (evaluateWatch [] ex_us5 [''us-5'' \<mapsto> ex_snapshot ''us-5'' ex_players5]
          1000000 False 1000200 ex_watch)) = None
   \<and> snd (evaluateWatch [] ex_us5 [''us-5'' \<mapsto> ex_snapshot ''us-5'' ex_players5]
          1000000 False 1000200 ex_watch) = ex_watch"
  by (simp add: evaluateWatch_def Let_def ex_snapshot_def ex_players5_def ex_player_def
      ex_watch_def ex_us5_def)

text \<open>
  C1, amended. Take a watch whose lobby has a cached snapshot that is not marked
  \<open>noApi\<close> and has a player list, and let the active count be the number of players
  with a numeric size above 3. With the count at least the threshold, the watch fires (an
  alert is handed to \<open>channel.send\<close>) exactly when \<open>lastAlertAt\<close> is \<open>null\<close> or
  \<open>now - lastAlertAt\<close> is at least \<open>intervalMinutes * 60000\<close>. When the send resolves,
  \<open>lastAlertAt\<close> is the time read then, and nothing else of the watch changes; when
  the send rejects, the watch is unchanged. When the watch does not fire, and always
  when the count is below the threshold, the watch is unchanged, so a later evaluation
  sees it as if this one had not happened.
\<close>

theorem C1_watch_cooldown:
  fixes w :: watch and ping lobbyDef cache now sendOk tSent
  defines "r \<equiv> evaluateWatch ping lobbyDef cache now sendOk tSent w"
  defines "due \<equiv> (case lastAlertAt w of None \<Rightarrow> True
                               | Some t \<Rightarrow> intervalMinutes w * 60000 \<le> now - t)"
  assumes snap: "cache (lobbyKey w) = Some snap" "\<not> noApi snap" "players snap = Some ps"
  shows "(threshold w \<le> int (length (activePlayers ps)) \<longrightarrow>
            (fst r \<noteq> Skipped) = due
          \<and> (due \<and> sendOk \<longrightarrow>
                (\<exists>m. fst r = Fired m) \<and> snd r = w\<lparr>lastAlertAt := Some tSent\<rparr>)
          \<and> (due \<and> \<not> sendOk \<longrightarrow> (\<exists>m. fst r = SendThrew m) \<and> snd r = w)
          \<and> (\<not> (due \<and> sendOk) \<longrightarrow> snd r = w))
       \<and> (int (length (activePlayers ps)) < threshold w \<longrightarrow> r = (Skipped, w))"
proof -
  note fire = evaluateWatch_due [where cache = cache and w = w and ping = ping
      and lobbyDef = lobbyDef and now = now and sendOk = sendOk and tSent = tSent, OF snap]
  note cool = evaluateWatch_cooling [where cache = cache and w = w and ping = ping
      and lobbyDef = lobbyDef and now = now and sendOk = sendOk and tSent = tSent, OF snap]
  note below = evaluateWatch_below [where cache = cache and w = w and ping = ping
      and lobbyDef = lobbyDef and now = now and sendOk = sendOk and tSent = tSent, OF snap]
  have cooling: "r = (Skipped, w)" if "\<not> due"
  proof -
    from that obtain t where "lastAlertAt w = Some t" and "now - t < intervalMinutes w * 60000"
      unfolding due_def by (cases "lastAlertAt w") auto
    then show ?thesis
      unfolding r_def by (rule cool)
  qed
  have firing: "r = (if sendOk
            then (Fired (LobbyWatchAlert ping (region lobbyDef) (lobby lobbyDef)
                           (length (activePlayers ps)) (threshold w) (intervalMinutes w)),
                  w\<lparr>lastAlertAt := Some tSent\<rparr>)
            else (SendThrew (LobbyWatchAlert ping (region lobbyDef) (lobby lobbyDef)
                           (length (activePlayers ps)) (threshold w) (intervalMinutes w)), w))"
    if "threshold w \<le> int (length (activePlayers ps))" and due
    using that unfolding r_def due_def by (rule fire)
  have low: "r = (Skipped, w)" if "int (length (activePlayers ps)) < threshold w"
    using that unfolding r_def by (rule below)
  show ?thesis
  proof (intro conjI impI)
    assume "int (length (activePlayers ps)) < threshold w"
    then show "r = (Skipped, w)"
      by (rule low)
  next
    assume ge: "threshold w \<le> int (length (activePlayers ps))"
    show "(fst r \<noteq> Skipped) = due"
      using firing [OF ge] cooling by (cases due) simp_all
    show "\<exists>m. fst r = Fired m" if "due \<and> sendOk"
      using firing [OF ge] that by simp
    show "snd r = w\<lparr>lastAlertAt := Some tSent\<rparr>" if "due \<and> sendOk"
      using firing [OF ge] that by simp
    show "\<exists>m. fst r = SendThrew m" if "due \<and> \<not> sendOk"
      using firing [OF ge] that by simp
    show "snd r = w" if "due \<and> \<not> sendOk"
      using firing [OF ge] that by simp
    show "snd r = w" if "\<not> (due \<and> sendOk)"
      using firing [OF ge] cooling that by (cases due) simp_all
  qed
qed

text \<open>
  The instance: threshold 5, interval 2 minutes, never fired. With 5 active players the
  watch fires and \<open>lastAlertAt\<close> becomes the time of sending (1000200). 30 seconds later,
  with 6 active players, it does not fire. 2 minutes and 1 second after the first alert,
  with 5 active players, it fires again. With 4 active players it does not fire and is
  unchanged.
\<close>

theorem C1_watch_cooldown_witness:
  "(\<exists>m. fst (evaluateWatch [] ex_us5 [''us-5'' \<mapsto> ex_snapshot ''us-5'' ex_players5]
               1000000 True 1000200 ex_watch) = Fired m)
   \<and> snd (evaluateWatch [] ex_us5 [''us-5'' \<mapsto> ex_snapshot ''us-5'' ex_players5]
               1000000 True 1000200 ex_watch) = ex_watch\<lparr>lastAlertAt := Some 1000200\<rparr>
   \<and> evaluateWatch [] ex_us5 [''us-5'' \<mapsto> ex_snapshot ''us-5'' (ex_player ''F'' 5 # ex_players5)]
               1030200 True 1030400 (ex_watch\<lparr>lastAlertAt := Some 1000200\<rparr>)
         = (Skipped, ex_watch\<lparr>lastAlertAt := Some 1000200\<rparr>)
   \<and> snd (evaluateWatch [] ex_us5 [''us-5'' \<mapsto> ex_snapshot ''us-5'' ex_players5]
               1121200 True 1121300 (ex_watch\<lparr>lastAlertAt := Some 1000200\<rparr>))
         = ex_watch\<lparr>lastAlertAt := Some 1121300\<rparr>
   \<and> evaluateWatch [] ex_us5 [''us-5'' \<mapsto> ex_snapshot ''us-5'' (tl ex_players5)]
               1000000 True 1000200 ex_watch = (Skipped, ex_watch)"
proof -
  let ?w1 = "ex_watch\<lparr>lastAlertAt := Some 1000200\<rparr>"
  have n5: "length (activePlayers ex_players5) = 5"
    and n6: "length (activePlayers (ex_player ''F'' 5 # ex_players5)) = 6"
    and n4: "length (activePlayers (tl ex_players5)) = 4"
    by (simp_all add: activePlayers_def ex_players5_def ex_player_def)
  have snap: "\<not> noApi (ex_snapshot ''us-5'' ps)" "players (ex_snapshot ''us-5'' ps) = Some ps" for ps
    by (simp_all add: ex_snapshot_def)
  have look: "[''us-5'' \<mapsto> v] (lobbyKey ex_watch) = Some v"
    "[''us-5'' \<mapsto> v] (lobbyKey ?w1) = Some v" for v :: snapshot
    by (simp_all add: ex_watch_def)
  have w: "threshold ex_watch = 5" "intervalMinutes ex_watch = 2" "lastAlertAt ex_watch = None"
    "threshold ?w1 = 5" "intervalMinutes ?w1 = 2" "lastAlertAt ?w1 = Some 1000200"
    by (simp_all add: ex_watch_def)
  have first: "(\<exists>m. fst (evaluateWatch [] ex_us5 [''us-5'' \<mapsto> ex_snapshot ''us-5'' ex_players5]
               1000000 True 1000200 ex_watch) = Fired m)
     \<and> snd (evaluateWatch [] ex_us5 [''us-5'' \<mapsto> ex_snapshot ''us-5'' ex_players5]
               1000000 True 1000200 ex_watch) = ex_watch\<lparr>lastAlertAt := Some 1000200\<rparr>"
    using C1_watch_cooldown [where w = ex_watch and ping = "[]" and lobbyDef = ex_us5
        and cache = "[''us-5'' \<mapsto> ex_snapshot ''us-5'' ex_players5]" and now = 1000000
        and sendOk = True and tSent = 1000200, OF look(1) snap]
    by (simp add: n5 w)
  have second: "evaluateWatch [] ex_us5
               [''us-5'' \<mapsto> ex_snapshot ''us-5'' (ex_player ''F'' 5 # ex_players5)]
               1030200 True 1030400 ?w1 = (Skipped, ?w1)"
    using C1_watch_cooldown [where w = ?w1 and ping = "[]" and lobbyDef = ex_us5
        and cache = "[''us-5'' \<mapsto> ex_snapshot ''us-5'' (ex_player ''F'' 5 # ex_players5)]"
        and now = 1030200 and sendOk = True and tSent = 1030400, OF look(2) snap]
    by (simp add: n6 w prod_eq_iff)
  have third: "snd (evaluateWatch [] ex_us5 [''us-5'' \<mapsto> ex_snapshot ''us-5'' ex_players5]
               1121200 True 1121300 ?w1) = ex_watch\<lparr>lastAlertAt := Some 1121300\<rparr>"
    using C1_watch_cooldown [where w = ?w1 and ping = "[]" and lobbyDef = ex_us5
        and cache = "[''us-5'' \<mapsto> ex_snapshot ''us-5'' ex_players5]" and now = 1121200
        and sendOk = True and tSent = 1121300, OF look(2) snap]
    by (simp add: n5 w)
  have fourth: "evaluateWatch [] ex_us5 [''us-5'' \<mapsto> ex_snapshot ''us-5'' (tl ex_players5)]
               1000000 True 1000200 ex_watch = (Skipped, ex_watch)"
    using C1_watch_cooldown [where w = ex_watch and ping = "[]" and lobbyDef = ex_us5
        and cache = "[''us-5'' \<mapsto> ex_snapshot ''us-5'' (tl ex_players5)]" and now = 1000000
        and sendOk = True and tSent = 1000200, OF look(1) snap]
    by (simp add: n4 w)
  from first second third fourth show ?thesis
    by (intro conjI) (erule conjunct1, erule conjunct2, assumption+)
qed

section \<open>The count a watch compares, by variant\<close>

lemma evaluateWatch_skipped_iff:
  assumes "cache (lobbyKey w) = Some snap" and "\<not> noApi snap" and "players snap = Some ps"
  shows "(fst (evaluateWatch ping l cache now sendOk tSent w) = Skipped) =
           (int (length (activePlayers ps)) < threshold w
            \<or> \<not> (case lastAlertAt w of None \<Rightarrow> True
                                      | Some t \<Rightarrow> intervalMinutes w * 60000 \<le> now - t))"
  using assms
  by (cases "lastAlertAt w") (auto simp: evaluateWatch_def activePlayers_def Let_def)

lemma evaluateWatch_v0_skipped_iff:
  assumes "cache (lobbyKey w) = Some snap"
  shows "(fst (evaluateWatch_v0 l cache now sendOk tSent w) = Skipped) =
           (playerCount snap < real_of_int (threshold w)
            \<or> \<not> (case lastAlertAt w of None \<Rightarrow> True
                                      | Some t \<Rightarrow> intervalMinutes w * 60000 \<le> now - t))"
  using assms
  by (cases "lastAlertAt w") (auto simp: evaluateWatch_v0_def Let_def)

lemma activePlayers_filter:
  "activePlayers ps = filter (\<lambda>p. \<exists>x. size_p p = Some x \<and> 3 < x) ps"
  unfolding activePlayers_def
  by (rule filter_cong) (auto split: option.splits)

lemma joinDiff_count: "fst (snd (joinDiff k ps cfg)) = length (activePlayers ps)"
  by (simp add: joinDiff_def Let_def)

text \<open>
  C7, as it is written, fails for the first variant (part_000). There the watch compares
  the snapshot's \<open>playerCount\<close>: with a reported count of 5 and one player above size 3, a
  watch with threshold 5 fires, while the later variants, which count the players above
  size 3, skip it.
\<close>

theorem C7_first_variant_counterexample:
  "fst (evaluateWatch_v0 ex_us5 [''us-5'' \<mapsto> ex_snapshot_idle] 1000 True 1001 ex_watch)
     = Fired (WatchText ''us'' 5 5 5 2 1)
   \<and> fst (evaluateWatch [] ex_us5 [''us-5'' \<mapsto> ex_snapshot_idle] 1000 True 1001 ex_watch)
     = Skipped
   \<and> length (activePlayers [ex_player ''A'' 10, ex_player ''B'' 0]) = 1"
  by (simp add: evaluateWatch_v0_def evaluateWatch_def activePlayers_def Let_def
      ex_snapshot_idle_def ex_watch_def ex_us5_def ex_player_def)

text \<open>
  C7, amended. In index.js and part_001 the count a watch compares with its threshold is
  the number of players whose size is a number above 3: a watch with a usable snapshot is
  skipped exactly when that number is below the threshold or the cooldown has not
  passed, and the join-diff detection filters with the same test and reports the same
  number as its active count. In part_000 the watch compares the snapshot's
  \<open>playerCount\<close> instead, and the join-diff detection takes the identifiers of all
  players, whatever their size.
\<close>

theorem C7_watch_count_by_variant:
  assumes "cache (lobbyKey w) = Some snap"
  shows "(\<not> noApi snap \<and> players snap = Some ps \<longrightarrow>
            (fst (evaluateWatch ping l cache now sendOk tSent w) = Skipped) =
              (int (length (activePlayers ps)) < threshold w
               \<or> \<not> (case lastAlertAt w of None \<Rightarrow> True
                                         | Some t \<Rightarrow> intervalMinutes w * 60000 \<le> now - t)))
       \<and> fst (snd (joinDiff k qs cfg)) = length (activePlayers qs)
       \<and> activePlayers qs = filter (\<lambda>p. \<exists>x. size_p p = Some x \<and> 3 < x) qs
       \<and> (fst (evaluateWatch_v0 l cache now sendOk tSent w) = Skipped) =
              (playerCount snap < real_of_int (threshold w)
               \<or> \<not> (case lastAlertAt w of None \<Rightarrow> True
                                         | Some t \<Rightarrow> intervalMinutes w * 60000 \<le> now - t))
       \<and> lastSeenPlayers (snd (joinDiff_v0 k qs cfg)) k
            = Some (newSet (filter truthy (map ident qs)))"
proof (intro conjI impI)
  assume "\<not> noApi snap \<and> players snap = Some ps"
  then show "(fst (evaluateWatch ping l cache now sendOk tSent w) = Skipped) =
              (int (length (activePlayers ps)) < threshold w
               \<or> \<not> (case lastAlertAt w of None \<Rightarrow> True
                                         | Some t \<Rightarrow> intervalMinutes w * 60000 \<le> now - t))"
    using evaluateWatch_skipped_iff [where cache = cache and w = w, OF assms] by blast
next
  show "fst (snd (joinDiff k qs cfg)) = length (activePlayers qs)"
    by (rule joinDiff_count)
next
  show "activePlayers qs = filter (\<lambda>p. \<exists>x. size_p p = Some x \<and> 3 < x) qs"
    by (rule activePlayers_filter)
next
  show "(fst (evaluateWatch_v0 l cache now sendOk tSent w) = Skipped) =
              (playerCount snap < real_of_int (threshold w)
               \<or> \<not> (case lastAlertAt w of None \<Rightarrow> True
                                         | Some t \<Rightarrow> intervalMinutes w * 60000 \<le> now - t))"
    using evaluateWatch_v0_skipped_iff [where cache = cache and w = w, OF assms] .
next
  show "lastSeenPlayers (snd (joinDiff_v0 k qs cfg)) k
            = Some (newSet (filter truthy (map ident qs)))"
    by (simp add: joinDiff_v0_def Let_def)
qed

text \<open>
  The instance: for the snapshot with a reported count of 5 and one player above size 3,
  and a watch with threshold 5 that never fired, the later variants skip the watch (the
  count is 1) and the first variant does not (the count is 5).
\<close>

theorem C7_watch_count_witness:
  "[''us-5'' \<mapsto> ex_snapshot_idle] (lobbyKey ex_watch) = Some ex_snapshot_idle
   \<and> fst (evaluateWatch [] ex_us5 [''us-5'' \<mapsto> ex_snapshot_idle] 1000 True 1001 ex_watch)
       = Skipped
   \<and> fst (evaluateWatch_v0 ex_us5 [''us-5'' \<mapsto> ex_snapshot_idle] 1000 True 1001 ex_watch)
       \<noteq> Skipped
   \<and> fst (snd (joinDiff ''us-5'' [ex_player ''A'' 10, ex_player ''B'' 0] ex_cfg)) = 1"
proof -
  have look: "[''us-5'' \<mapsto> ex_snapshot_idle] (lobbyKey ex_watch) = Some ex_snapshot_idle"
    by (simp add: ex_watch_def)
  have snap: "\<not> noApi ex_snapshot_idle
      \<and> players ex_snapshot_idle = Some [ex_player ''A'' 10, ex_player ''B'' 0]"
    by (simp add: ex_snapshot_idle_def)
  have n: "length (activePlayers [ex_player ''A'' 10, ex_player ''B'' 0]) = 1"
    by (simp add: activePlayers_def ex_player_def)
  have w: "threshold ex_watch = 5" "lastAlertAt ex_watch = None"
    by (simp_all add: ex_watch_def)
  have c: "playerCount ex_snapshot_idle = 5"
    by (simp add: ex_snapshot_idle_def)
  note th = C7_watch_count_by_variant [where cache = "[''us-5'' \<mapsto> ex_snapshot_idle]"
      and w = ex_watch and snap = ex_snapshot_idle
      and ps = "[ex_player ''A'' 10, ex_player ''B'' 0]"
      and qs = "[ex_player ''A'' 10, ex_player ''B'' 0]" and k = "''us-5''" and cfg = ex_cfg
      and ping = "[]" and l = ex_us5 and now = 1000 and sendOk = True and tSent = 1001, OF look]
  from th snap have a: "fst (evaluateWatch [] ex_us5 [''us-5'' \<mapsto> ex_snapshot_idle] 1000 True 1001 ex_watch)
       = Skipped"
    by (simp add: n w)
  from th have b: "fst (evaluateWatch_v0 ex_us5 [''us-5'' \<mapsto> ex_snapshot_idle] 1000 True 1001 ex_watch)
       \<noteq> Skipped"
    by (simp add: w c)
  from th have d: "fst (snd (joinDiff ''us-5'' [ex_player ''A'' 10, ex_player ''B'' 0] ex_cfg)) = 1"
    by (simp add: n)
  from look a b d show ?thesis
    by (intro conjI)
qed

section \<open>Join detection\<close>

lemma foldl_setAdd:
  "set (foldl (\<lambda>acc x. setAdd x acc) acc xs) = set acc \<union> set xs"
  by (induction xs arbitrary: acc) (auto simp: setAdd_def)

lemma set_newSet: "set (newSet xs) = set xs"
  by (simp add: newSet_def foldl_setAdd)

lemma set_currentIds: "set (currentIds aps) = {i \<in> ident ` set aps. truthy i}"
  by (auto simp: currentIds_def set_newSet)

lemma currentIds_Nil: "currentIds [] = []"
  by (simp add: currentIds_def newSet_def)

lemma find_ident:
  assumes "i \<in> ident ` set aps"
  shows "\<exists>p. find (\<lambda>q. ident q = i) aps = Some p \<and> ident p = i"
proof (cases "find (\<lambda>q. ident q = i) aps")
  case None
  with assms show ?thesis
    by (auto simp: find_None_iff)
next
  case (Some p)
  then show ?thesis
    by (auto simp: find_Some_iff)
qed

lemma collectJoins_idents:
  assumes "set ids \<subseteq> ident ` set aps"
  shows "map ident (collectJoins ids lastSet aps) = filter (\<lambda>i. i \<notin> set lastSet) ids"
  using assms
proof (induction ids)
  case Nil
  show ?case by simp
next
  case (Cons i ids)
  then have "i \<in> ident ` set aps" and rest: "set ids \<subseteq> ident ` set aps"
    by simp_all
  then obtain p where "find (\<lambda>q. ident q = i) aps = Some p" and "ident p = i"
    using find_ident by blast
  with Cons.IH [OF rest] show ?case
    by simp
qed

lemma collectJoins_first:
  assumes "p \<in> set (collectJoins ids lastSet aps)"
  shows "find (\<lambda>q. ident q = ident p) aps = Some p \<and> ident p \<in> set ids \<and> ident p \<notin> set lastSet"
  using assms
proof (induction ids)
  case Nil
  then show ?case by simp
next
  case (Cons i ids)
  show ?case
  proof (cases "i \<notin> set lastSet \<and> find (\<lambda>q. ident q = i) aps = Some p")
    case True
    then have "ident p = i"
      by (auto simp: find_Some_iff)
    with True show ?thesis
      by simp
  next
    case False
    with Cons.prems have "p \<in> set (collectJoins ids lastSet aps)"
      by (auto split: if_splits option.splits)
    from Cons.IH [OF this] show ?thesis
      by simp
  qed
qed

text \<open>Both branches of \<open>joinDiff\<close> in one equation: with no active player the identifier set is empty.\<close>

lemma joinDiff_eq:
  "joinDiff k ps cfg =
     (collectJoins (currentIds (activePlayers ps))
        (case lastSeenPlayers cfg k of None \<Rightarrow> [] | Some old \<Rightarrow> old) (activePlayers ps),
      length (activePlayers ps),
      cfg\<lparr>lastSeenPlayers := (lastSeenPlayers cfg)(k \<mapsto> currentIds (activePlayers ps))\<rparr>)"
  by (simp add: joinDiff_def Let_def currentIds_Nil)

lemma joinDiff_idents:
  "map ident (fst (joinDiff k ps cfg)) =
     filter (\<lambda>i. i \<notin> set (case lastSeenPlayers cfg k of None \<Rightarrow> [] | Some old \<Rightarrow> old))
       (currentIds (activePlayers ps))"
proof -
  have "set (currentIds (activePlayers ps)) \<subseteq> ident ` set (activePlayers ps)"
    by (auto simp: set_currentIds)
  then show ?thesis
    by (simp add: joinDiff_eq collectJoins_idents)
qed

lemma joinDiff_ident_set:
  "ident ` set (fst (joinDiff k ps cfg)) =
     set (currentIds (activePlayers ps))
       - set (case lastSeenPlayers cfg k of None \<Rightarrow> [] | Some old \<Rightarrow> old)"
proof -
  have "ident ` set (fst (joinDiff k ps cfg)) = set (map ident (fst (joinDiff k ps cfg)))"
    by simp
  also have "\<dots> = set (currentIds (activePlayers ps))
       - set (case lastSeenPlayers cfg k of None \<Rightarrow> [] | Some old \<Rightarrow> old)"
    unfolding joinDiff_idents by auto
  finally show ?thesis .
qed

lemma joinDiff_seen:
  "lastSeenPlayers (snd (snd (joinDiff k ps cfg))) k = Some (currentIds (activePlayers ps))"
  by (simp add: joinDiff_eq)

text \<open>
  C2. Let the current set be the truthy identifiers of the active players of the
  snapshot (numeric size above 3), and the last-seen set the one stored for the lobby (empty when
  none is stored). The join-diff reports one player for each identifier that is in the
  current set and not in the last-seen set, in the order of the current set: the first
  active player that carries the identifier. It stores the current set as the new
  last-seen set, with or without joins, and changes nothing else of the configuration.
  With an empty current set it reports no joins and stores the empty set. So an
  identifier of the current set is not reported by the next run, and after a run with
  an empty current set every identifier of the next current set is reported.
\<close>

theorem C2_join_diff:
  fixes k :: string and ps qs :: "player list" and cfg :: guildcfg
  defines "ids \<equiv> currentIds (activePlayers ps)"
  defines "lastSet \<equiv> (case lastSeenPlayers cfg k of None \<Rightarrow> [] | Some old \<Rightarrow> old)"
  defines "newJoins \<equiv> fst (joinDiff k ps cfg)"
  defines "cfg' \<equiv> snd (snd (joinDiff k ps cfg))"
  shows "set ids = {i \<in> ident ` set (activePlayers ps). truthy i}
       \<and> (set ids \<noteq> {} \<longrightarrow>
            map ident newJoins = filter (\<lambda>i. i \<notin> set lastSet) ids
          \<and> ident ` set newJoins = set ids - set lastSet
          \<and> (\<forall>p \<in> set newJoins. find (\<lambda>q. ident q = ident p) (activePlayers ps) = Some p)
          \<and> lastSeenPlayers cfg' k = Some ids)
       \<and> (set ids = {} \<longrightarrow> newJoins = [] \<and> lastSeenPlayers cfg' k = Some [])
       \<and> cfg' = cfg\<lparr>lastSeenPlayers := (lastSeenPlayers cfg)(k \<mapsto> ids)\<rparr>
       \<and> (\<forall>i \<in> set ids. i \<notin> ident ` set (fst (joinDiff k qs cfg')))
       \<and> (set ids = {} \<longrightarrow>
            ident ` set (fst (joinDiff k qs cfg')) = set (currentIds (activePlayers qs)))"
proof -
  have seen: "lastSeenPlayers cfg' k = Some ids"
    unfolding cfg'_def ids_def by (rule joinDiff_seen)
  have idents: "map ident newJoins = filter (\<lambda>i. i \<notin> set lastSet) ids"
    unfolding newJoins_def ids_def lastSet_def by (rule joinDiff_idents)
  have next_run: "ident ` set (fst (joinDiff k qs cfg')) = set (currentIds (activePlayers qs)) - set ids"
    by (simp add: joinDiff_ident_set seen)
  show ?thesis
  proof (intro conjI impI ballI)
    show "set ids = {i \<in> ident ` set (activePlayers ps). truthy i}"
      unfolding ids_def by (rule set_currentIds)
    show "map ident newJoins = filter (\<lambda>i. i \<notin> set lastSet) ids"
      by (rule idents)
    show "ident ` set newJoins = set ids - set lastSet"
      unfolding newJoins_def ids_def lastSet_def by (rule joinDiff_ident_set)
    show "find (\<lambda>q. ident q = ident p) (activePlayers ps) = Some p" if "p \<in> set newJoins" for p
      using that collectJoins_first unfolding newJoins_def by (fastforce simp: joinDiff_eq)
    show "lastSeenPlayers cfg' k = Some ids"
      by (rule seen)
    show "newJoins = []" if "set ids = {}"
    proof -
      from that idents have "map ident newJoins = []"
        by simp
      then show ?thesis
        by simp
    qed
    show "lastSeenPlayers cfg' k = Some []" if "set ids = {}"
      using that seen by simp
    show "cfg' = cfg\<lparr>lastSeenPlayers := (lastSeenPlayers cfg)(k \<mapsto> ids)\<rparr>"
      unfolding cfg'_def ids_def by (simp add: joinDiff_eq)
    show "i \<notin> ident ` set (fst (joinDiff k qs cfg'))" if "i \<in> set ids" for i
      using that next_run by blast
    show "ident ` set (fst (joinDiff k qs cfg')) = set (currentIds (activePlayers qs))"
      if "set ids = {}"
      using that next_run by simp
  qed
qed

text \<open>
  The instance: the last-seen set is {A, B} and the active players are B and C; C is
  reported and {B, C} is stored. With no active player nothing is reported and the
  empty set is stored; when A is active in the run after that, A is reported.
\<close>

theorem C2_join_diff_witness:
  "map ident (fst (joinDiff ''us-5'' [ex_player ''B'' 10, ex_player ''C'' 8] ex_cfgAB))
     = [Some ''C'']
   \<and> lastSeenPlayers (snd (snd (joinDiff ''us-5'' [ex_player ''B'' 10, ex_player ''C'' 8] ex_cfgAB)))
       ''us-5'' = Some [Some ''B'', Some ''C'']
   \<and> fst (joinDiff ''us-5'' [] ex_cfgAB) = []
   \<and> lastSeenPlayers (snd (snd (joinDiff ''us-5'' [] ex_cfgAB))) ''us-5'' = Some []
   \<and> ident ` set (fst (joinDiff ''us-5'' [ex_player ''A'' 9]
                        (snd (snd (joinDiff ''us-5'' [] ex_cfgAB))))) = {Some ''A''}"
proof -
  have idsBC: "currentIds (activePlayers [ex_player ''B'' 10, ex_player ''C'' 8])
                 = [Some ''B'', Some ''C'']"
    and ids0: "currentIds (activePlayers []) = []"
    and idsA: "currentIds (activePlayers [ex_player ''A'' 9]) = [Some ''A'']"
    by (simp_all add: currentIds_def newSet_def setAdd_def ident_def js_or_def truthy_def
        activePlayers_def ex_player_def)
  have last: "(case lastSeenPlayers ex_cfgAB ''us-5'' of None \<Rightarrow> [] | Some old \<Rightarrow> old)
                = [Some ''A'', Some ''B'']"
    by (simp add: ex_cfgAB_def)
  note run1 = C2_join_diff [where ps = "[ex_player ''B'' 10, ex_player ''C'' 8]" and cfg = ex_cfgAB
      and k = "''us-5''" and qs = "[]"]
  note run2 = C2_join_diff [where ps = "[]" and cfg = ex_cfgAB and k = "''us-5''"
      and qs = "[ex_player ''A'' 9]"]
  from run1 have a: "map ident (fst (joinDiff ''us-5'' [ex_player ''B'' 10, ex_player ''C'' 8] ex_cfgAB))
     = [Some ''C'']"
    by (simp add: idsBC last)
  from run1 have b: "lastSeenPlayers (snd (snd (joinDiff ''us-5'' [ex_player ''B'' 10, ex_player ''C'' 8] ex_cfgAB)))
       ''us-5'' = Some [Some ''B'', Some ''C'']"
    by (simp add: idsBC)
  from run2 have c: "fst (joinDiff ''us-5'' [] ex_cfgAB) = []"
    by (simp add: ids0)
  from run2 have d: "lastSeenPlayers (snd (snd (joinDiff ''us-5'' [] ex_cfgAB))) ''us-5'' = Some []"
    by (simp add: ids0)
  have empty: "set (currentIds (activePlayers [])) = {}"
    by (simp add: ids0)
  from run2 empty
  have "ident ` set (fst (joinDiff ''us-5'' [ex_player ''A'' 9]
                        (snd (snd (joinDiff ''us-5'' [] ex_cfgAB)))))
          = set (currentIds (activePlayers [ex_player ''A'' 9]))"
    by blast
  then have e: "ident ` set (fst (joinDiff ''us-5'' [ex_player ''A'' 9]
                        (snd (snd (joinDiff ''us-5'' [] ex_cfgAB))))) = {Some ''A''}"
    by (simp add: idsA)
  from a b c d e show ?thesis
    by (intro conjI)
qed

lemma currentIds_truthy: "i \<in> set (currentIds aps) \<Longrightarrow> truthy i"
  by (simp add: set_currentIds)

lemma ident_falsy:
  assumes "\<not> truthy (privyId p)" and "\<not> truthy (id_p p)"
  shows "\<not> truthy (ident p)"
  using assms by (simp add: ident_def js_or_def)

lemma joinDiff_joins_truthy:
  assumes "p \<in> set (fst (joinDiff k ps cfg))"
  shows "truthy (ident p)"
proof -
  from assms have "ident p \<in> ident ` set (fst (joinDiff k ps cfg))"
    by (rule imageI)
  then have "ident p \<in> set (currentIds (activePlayers ps))"
    unfolding joinDiff_ident_set by blast
  then show ?thesis
    by (rule currentIds_truthy)
qed

lemma seenTruthy_update:
  assumes "seenTruthy cfg" and "\<forall>i \<in> set ids. truthy i"
    and "lastSeenPlayers cfg' = (lastSeenPlayers cfg)(k \<mapsto> ids)"
  shows "seenTruthy cfg'"
  unfolding seenTruthy_def
proof (intro allI impI)
  fix k' ids' i
  assume a: "lastSeenPlayers cfg' k' = Some ids' \<and> i \<in> set ids'"
  show "truthy i"
  proof (cases "k' = k")
    case True
    with a assms(3) have "ids' = ids"
      by simp
    with a assms(2) show ?thesis
      by blast
  next
    case False
    with a assms(3) have "lastSeenPlayers cfg k' = Some ids' \<and> i \<in> set ids'"
      by simp
    with assms(1) show ?thesis
      unfolding seenTruthy_def by blast
  qed
qed

lemma seenTruthy_same:
  assumes "seenTruthy cfg" and "lastSeenPlayers cfg' = lastSeenPlayers cfg"
  shows "seenTruthy cfg'"
  using assms unfolding seenTruthy_def by simp

lemma joinDiff_seenTruthy:
  assumes "seenTruthy cfg"
  shows "seenTruthy (snd (snd (joinDiff k ps cfg)))"
proof -
  have t: "\<forall>i \<in> set (currentIds (activePlayers ps)). truthy i"
    using currentIds_truthy by blast
  have eq: "lastSeenPlayers (snd (snd (joinDiff k ps cfg)))
              = (lastSeenPlayers cfg)(k \<mapsto> currentIds (activePlayers ps))"
    by (simp add: joinDiff_eq)
  show ?thesis
    by (rule seenTruthy_update [OF assms t eq])
qed

lemma joinLobby_seenTruthy:
  assumes "seenTruthy cfg"
  shows "seenTruthy (snd (joinLobby cache l cfg))"
proof (cases "\<exists>snap ps. alertEnabled cfg (key l) = Some True \<and> cache (key l) = Some snap
                \<and> \<not> noApi snap \<and> players snap = Some ps")
  case True
  then obtain snap ps where "alertEnabled cfg (key l) = Some True" "cache (key l) = Some snap"
      "\<not> noApi snap" "players snap = Some ps"
    by blast
  then have "snd (joinLobby cache l cfg) = snd (snd (joinDiff (key l) ps cfg))"
    by (simp add: joinLobby_def split: prod.splits)
  with joinDiff_seenTruthy [OF assms, where k = "key l" and ps = ps] show ?thesis
    by simp
next
  case False
  then have "snd (joinLobby cache l cfg) = cfg"
    by (auto simp: joinLobby_def split: option.splits)
  with assms show ?thesis
    by simp
qed

lemma joinLoop_seenTruthy:
  "seenTruthy cfg \<Longrightarrow> seenTruthy (fst (snd (joinLoop cache sendOk ls cfg)))"
proof (induction ls arbitrary: cfg)
  case Nil
  then show ?case by simp
next
  case (Cons l ls)
  obtain mo cfg' where step: "joinLobby cache l cfg = (mo, cfg')"
    by (cases "joinLobby cache l cfg")
  with joinLobby_seenTruthy [OF Cons.prems, where cache = cache and l = l] have ok: "seenTruthy cfg'"
    by simp
  show ?case
  proof (cases mo)
    case None
    with step Cons.IH [OF ok] show ?thesis
      by simp
  next
    case (Some m)
    show ?thesis
    proof (cases "sendOk (key l)")
      case True
      obtain ms cfg'' e where rest: "joinLoop cache sendOk ls cfg' = (ms, cfg'', e)"
        by (cases "joinLoop cache sendOk ls cfg'")
      with Cons.IH [OF ok] have "seenTruthy cfg''"
        by simp
      with step Some True rest show ?thesis
        by simp
    next
      case False
      with step Some ok show ?thesis
        by simp
    qed
  qed
qed

lemma processJoinAlertsGuild_seenTruthy:
  assumes "seenTruthy cfg"
  shows "seenTruthy (fst (snd (processJoinAlertsGuild cache channelOk sendOk cfg)))"
  using assms joinLoop_seenTruthy [OF assms, where cache = cache and sendOk = sendOk and ls = LOBBIES]
  by (simp add: processJoinAlertsGuild_def)

text \<open>
  C10. Every identifier of the current set is truthy, so every identifier the join-diff
  stores and every player it reports has a truthy identifier; a player with neither a
  truthy \<open>privyId\<close> nor a truthy \<open>id\<close> is not in the current set and is never reported.
  A fresh configuration has no last-seen identifiers, and the polling loop for a guild,
  \<open>,alert on\<close> and \<open>,alert off\<close> keep all stored identifiers truthy, in every cycle.
\<close>

theorem C10_identifiers_truthy:
  "(\<forall>i \<in> set (currentIds (activePlayers ps)). truthy i)
   \<and> (\<forall>ids. lastSeenPlayers (snd (snd (joinDiff k ps cfg))) k = Some ids
          \<longrightarrow> (\<forall>i \<in> set ids. truthy i))
   \<and> (\<forall>p \<in> set (fst (joinDiff k ps cfg)). truthy (ident p))
   \<and> (\<forall>p. \<not> truthy (privyId p) \<and> \<not> truthy (id_p p)
          \<longrightarrow> ident p \<notin> set (currentIds (activePlayers ps))
            \<and> p \<notin> set (fst (joinDiff k ps cfg)))
   \<and> seenTruthy newGuildConfig
   \<and> (seenTruthy cfg \<longrightarrow>
          seenTruthy (fst (snd (processJoinAlertsGuild cache channelOk sendOk cfg)))
        \<and> seenTruthy (alertOn k cfg) \<and> seenTruthy (alertOff k cfg))"
proof (intro conjI allI impI ballI)
  show "truthy i" if "i \<in> set (currentIds (activePlayers ps))" for i
    using that by (rule currentIds_truthy)
  show "truthy i"
    if "lastSeenPlayers (snd (snd (joinDiff k ps cfg))) k = Some ids" and "i \<in> set ids" for ids i
  proof -
    from that have "i \<in> set (currentIds (activePlayers ps))"
      by (auto simp: joinDiff_seen)
    then show ?thesis
      by (rule currentIds_truthy)
  qed
  show "truthy (ident p)" if "p \<in> set (fst (joinDiff k ps cfg))" for p
    using that by (rule joinDiff_joins_truthy)
  show "ident p \<notin> set (currentIds (activePlayers ps))"
    if "\<not> truthy (privyId p) \<and> \<not> truthy (id_p p)" for p
    using that ident_falsy currentIds_truthy by blast
  show "p \<notin> set (fst (joinDiff k ps cfg))"
    if "\<not> truthy (privyId p) \<and> \<not> truthy (id_p p)" for p
    using that ident_falsy joinDiff_joins_truthy by blast
  show "seenTruthy newGuildConfig"
    by (simp add: seenTruthy_def newGuildConfig_def)
  show "seenTruthy (fst (snd (processJoinAlertsGuild cache channelOk sendOk cfg)))"
    if "seenTruthy cfg"
    using that by (rule processJoinAlertsGuild_seenTruthy)
  show "seenTruthy (alertOn k cfg)" if "seenTruthy cfg"
  proof (cases "lastSeenPlayers cfg k")
    case None
    then have eq: "lastSeenPlayers (alertOn k cfg) = (lastSeenPlayers cfg)(k \<mapsto> [])"
      by (simp add: alertOn_def Let_def)
    show ?thesis
      by (rule seenTruthy_update [OF that _ eq]) simp
  next
    case (Some old)
    then have "lastSeenPlayers (alertOn k cfg) = lastSeenPlayers cfg"
      by (simp add: alertOn_def Let_def)
    with that show ?thesis
      by (rule seenTruthy_same)
  qed
  show "seenTruthy (alertOff k cfg)" if "seenTruthy cfg"
  proof -
    have eq: "lastSeenPlayers (alertOff k cfg) = (lastSeenPlayers cfg)(k \<mapsto> [])"
      by (simp add: alertOff_def)
    show ?thesis
      by (rule seenTruthy_update [OF that _ eq]) simp
  qed
qed

text \<open>
  The instance: A and a player without identifier are active in \<open>us-5\<close>. The player
  without identifier is not in the current set and is not reported, and after the
  polling loop for the guild all stored identifiers are truthy.
\<close>

theorem C10_identifiers_truthy_witness:
  "\<not> truthy (privyId ex_anon) \<and> \<not> truthy (id_p ex_anon)
   \<and> ident ex_anon \<notin> set (currentIds (activePlayers [ex_player ''A'' 10, ex_anon]))
   \<and> ex_anon \<notin> set (fst (joinDiff ''us-5'' [ex_player ''A'' 10, ex_anon] ex_cfg))
   \<and> seenTruthy ex_cfg
   \<and> seenTruthy (fst (snd (processJoinAlertsGuild
         [''us-5'' \<mapsto> ex_snapshot ''us-5'' [ex_player ''A'' 10, ex_anon]] True (\<lambda>k. True) ex_cfg)))"
proof -
  have anon: "\<not> truthy (privyId ex_anon) \<and> \<not> truthy (id_p ex_anon)"
    by (simp add: ex_anon_def truthy_def)
  have cfg: "seenTruthy ex_cfg"
    by (simp add: seenTruthy_def ex_cfg_def)
  note th = C10_identifiers_truthy [where ps = "[ex_player ''A'' 10, ex_anon]" and k = "''us-5''"
      and cfg = ex_cfg and channelOk = True and sendOk = "\<lambda>k. True"
      and cache = "[''us-5'' \<mapsto> ex_snapshot ''us-5'' [ex_player ''A'' 10, ex_anon]]"]
  from th anon have a: "ident ex_anon \<notin> set (currentIds (activePlayers [ex_player ''A'' 10, ex_anon]))"
    by blast
  from th anon have b: "ex_anon \<notin> set (fst (joinDiff ''us-5'' [ex_player ''A'' 10, ex_anon] ex_cfg))"
    by blast
  from th cfg have c: "seenTruthy (fst (snd (processJoinAlertsGuild
         [''us-5'' \<mapsto> ex_snapshot ''us-5'' [ex_player ''A'' 10, ex_anon]] True (\<lambda>k. True) ex_cfg)))"
    by blast
  from anon a b cfg c show ?thesis
    by (intro conjI) (erule conjunct1, erule conjunct2, assumption+)
qed

section \<open>The leaderboard view\<close>

lemma totalPagesOf_ge: "1 \<le> totalPagesOf ps"
  by (simp add: totalPagesOf_def)

lemma totalPagesOf_bound: "(totalPagesOf ps - 1) * 5 \<le> int (length ps)"
proof (cases "1 \<le> \<lceil>real (length ps) / 5\<rceil>")
  case True
  then have "real_of_int (totalPagesOf ps) < real (length ps) / 5 + 1"
    by (simp add: totalPagesOf_def LB_PAGE_SIZE_def max_def ceiling_less_iff) linarith
  then have "real_of_int ((totalPagesOf ps - 1) * 5) < real_of_int (int (length ps))"
    by simp
  then show ?thesis
    by linarith
next
  case False
  then have "totalPagesOf ps = 1"
    by (simp add: totalPagesOf_def LB_PAGE_SIZE_def max_def)
  then show ?thesis
    by simp
qed

lemma clampPage_range:
  assumes "1 \<le> t"
  shows "0 \<le> clampPage t p" and "clampPage t p \<le> t - 1"
  using assms by (simp_all add: clampPage_def Let_def)

lemma clampPage_cases:
  "clampPage t p = (if p < 0 then (if 0 > t - 1 then t - 1 else 0)
                    else if p > t - 1 then t - 1 else p)"
  by (simp add: clampPage_def Let_def)

lemma slice_take_drop:
  assumes "0 \<le> a" and "a \<le> b"
  shows "slice xs a b = take (nat (b - a)) (drop (nat a) xs)"
proof (cases "a \<le> int (length xs)")
  case True
  show ?thesis
  proof (cases "b \<le> int (length xs)")
    case b: True
    with True assms show ?thesis
      by (simp add: slice_def Let_def min_def)
  next
    case False
    with True assms have "slice xs a b = drop (nat a) xs"
      by (simp add: slice_def Let_def min_def)
    moreover from False True assms have "length (drop (nat a) xs) \<le> nat (b - a)"
      by simp
    ultimately show ?thesis
      by simp
  qed
next
  case False
  with assms show ?thesis
    by (simp add: slice_def Let_def min_def)
qed

lemma fields_rank:
  "map f_rank (map (lbFieldOf start) (enumerate 0 xs)) =
     map (\<lambda>i. start + int i + 1) [0..<length xs]"
  by (rule nth_equalityI) (simp_all add: lbFieldOf_def nth_enumerate_eq)

lemma fields_name:
  "map f_name (map (lbFieldOf start) (enumerate 0 xs)) = map displayName xs"
  by (rule nth_equalityI) (simp_all add: lbFieldOf_def nth_enumerate_eq)

text \<open>What \<open>buildLbEmbed\<close> puts on the page, in terms of the clamped page.\<close>

lemma buildLbEmbed_page:
  fixes ps :: "player list" and lobbyDef snap page now s
  defines "view \<equiv> fst (buildLbEmbed lobbyDef snap ps page now s)"
  defines "cur \<equiv> clampPage (totalPagesOf ps) page"
  shows "h_totalPages (e_header view) = totalPagesOf ps"
    and "h_page (e_header view) = cur + 1"
    and "map f_rank (e_fields view) = map (\<lambda>i. cur * 5 + int i + 1) [0..<length (e_fields view)]"
    and "map f_name (e_fields view) = map displayName (take 5 (drop (nat (cur * 5)) ps))"
proof -
  have cur0: "0 \<le> cur * 5"
    unfolding cur_def using clampPage_range(1) [OF totalPagesOf_ge] by simp
  have sl: "slice ps (cur * 5) (cur * 5 + 5) = take 5 (drop (nat (cur * 5)) ps)"
    using slice_take_drop [OF cur0, of "cur * 5 + 5" ps] by simp
  have fields: "e_fields view
      = map (lbFieldOf (cur * 5)) (enumerate 0 (take 5 (drop (nat (cur * 5)) ps)))"
    unfolding view_def cur_def
    using sl [unfolded cur_def] by (simp add: buildLbEmbed_def Let_def LB_PAGE_SIZE_def)
  show "h_totalPages (e_header view) = totalPagesOf ps"
    unfolding view_def by (simp add: buildLbEmbed_def Let_def)
  show "h_page (e_header view) = cur + 1"
    unfolding view_def cur_def by (simp add: buildLbEmbed_def Let_def)
  show "map f_rank (e_fields view) = map (\<lambda>i. cur * 5 + int i + 1) [0..<length (e_fields view)]"
    unfolding fields fields_rank by simp
  show "map f_name (e_fields view) = map displayName (take 5 (drop (nat (cur * 5)) ps))"
    unfolding fields fields_name by simp
qed

text \<open>
  C6. For every player list and every requested page, the view shows \<open>totalPages\<close> =
  max(1, ceil(length / 5)) and the page \<open>cur\<close> (shown as \<open>cur + 1\<close>), which is the
  requested page clamped into [0, totalPages - 1]. The entries are the players at
  positions \<open>5 * cur\<close> to \<open>5 * cur + 4\<close> of the list, and the entry at position \<open>i\<close> of the
  page has rank \<open>5 * cur + i + 1\<close>. With 12 players and requested page 3 the page is 2
  and its entries are the last two players, with ranks 11 and 12.
\<close>

theorem C6_leaderboard_page:
  fixes ps :: "player list" and lobbyDef snap page now s
  defines "view \<equiv> fst (buildLbEmbed lobbyDef snap ps page now s)"
  defines "pages \<equiv> max 1 \<lceil>real (length ps) / 5\<rceil>"
  defines "cur \<equiv> h_page (e_header view) - 1"
  shows "h_totalPages (e_header view) = pages
       \<and> 0 \<le> cur \<and> cur \<le> pages - 1
       \<and> cur = (if page < 0 then 0 else if page > pages - 1 then pages - 1 else page)
       \<and> map f_rank (e_fields view) = map (\<lambda>i. cur * 5 + int i + 1) [0..<length (e_fields view)]
       \<and> map f_name (e_fields view) = map displayName (take 5 (drop (nat (cur * 5)) ps))
       \<and> (length ps = 12 \<and> page = 3 \<longrightarrow>
            cur = 2 \<and> map f_rank (e_fields view) = [11, 12]
          \<and> map f_name (e_fields view) = map displayName (drop 10 ps))"
proof -
  note page = buildLbEmbed_page [of lobbyDef snap ps page now s, folded view_def]
  have pages: "pages = totalPagesOf ps"
    by (simp add: pages_def totalPagesOf_def LB_PAGE_SIZE_def)
  have cur: "cur = clampPage (totalPagesOf ps) page"
    unfolding cur_def page(2) by simp
  have one: "1 \<le> pages"
    by (simp add: pages_def)
  have ranks: "map f_rank (e_fields view) = map (\<lambda>i. cur * 5 + int i + 1) [0..<length (e_fields view)]"
    unfolding cur by (rule page(3))
  have names: "map f_name (e_fields view) = map displayName (take 5 (drop (nat (cur * 5)) ps))"
    unfolding cur by (rule page(4))
  have clamp: "cur = (if page < 0 then 0 else if page > pages - 1 then pages - 1 else page)"
    unfolding cur pages [symmetric] using one by (simp add: clampPage_cases)
  have twelve: "cur = 2 \<and> map f_rank (e_fields view) = [11, 12]
          \<and> map f_name (e_fields view) = map displayName (drop 10 ps)"
    if "length ps = 12 \<and> page = 3"
  proof -
    from that have "pages = 3"
      by (simp add: pages_def)
    with that clamp have c2: "cur = 2"
      by simp
    from names c2 that have n: "map f_name (e_fields view) = map displayName (drop 10 ps)"
      by simp
    have "length (map f_name (e_fields view)) = length (map displayName (drop 10 ps))"
      by (simp only: n)
    with that have len: "length (e_fields view) = 2"
      by simp
    have upt2: "[0..<2::nat] = [0, 1]"
      by (simp add: numeral_2_eq_2)
    from ranks have "map f_rank (e_fields view) = [11, 12]"
      unfolding len c2 upt2 by simp
    with c2 n show ?thesis
      by simp
  qed
  show ?thesis
  proof (intro conjI impI)
    show "h_totalPages (e_header view) = pages"
      unfolding pages by (rule page(1))
    show "0 \<le> cur" and "cur \<le> pages - 1"
      using clamp one by (simp_all split: if_splits)
    show "cur = (if page < 0 then 0 else if page > pages - 1 then pages - 1 else page)"
      by (rule clamp)
    show "map f_rank (e_fields view) = map (\<lambda>i. cur * 5 + int i + 1) [0..<length (e_fields view)]"
      by (rule ranks)
    show "map f_name (e_fields view) = map displayName (take 5 (drop (nat (cur * 5)) ps))"
      by (rule names)
  qed (use twelve in blast)+
qed

text \<open>
  The instance: twelve active players P1 to P12 and requested page 3; the view is page 2
  with P11 and P12 at ranks 11 and 12.
\<close>

theorem C6_leaderboard_page_witness:
  "length ex_players12 = 12
   \<and> h_page (e_header (fst (buildLbEmbed ex_us5 (ex_snapshot ''us-5'' ex_players12)
                              ex_players12 3 0 (ex_state Map.empty)))) - 1 = 2
   \<and> map f_rank (e_fields (fst (buildLbEmbed ex_us5 (ex_snapshot ''us-5'' ex_players12)
                                  ex_players12 3 0 (ex_state Map.empty)))) = [11, 12]
   \<and> map f_name (e_fields (fst (buildLbEmbed ex_us5 (ex_snapshot ''us-5'' ex_players12)
                                  ex_players12 3 0 (ex_state Map.empty)))) = [''P11'', ''P12'']"
proof -
  have len: "length ex_players12 = 12"
    by (simp add: ex_players12_def)
  have last2: "map displayName (drop 10 ex_players12) = [''P11'', ''P12'']"
    by (simp add: ex_players12_def ex_player_def displayName_def orDefault_def js_or_def
        truthy_def)
  note th = C6_leaderboard_page [where ps = ex_players12 and page = 3 and lobbyDef = ex_us5
      and snap = "ex_snapshot ''us-5'' ex_players12" and now = 0 and s = "ex_state Map.empty"]
  from th len have a: "h_page (e_header (fst (buildLbEmbed ex_us5 (ex_snapshot ''us-5'' ex_players12)
                              ex_players12 3 0 (ex_state Map.empty)))) - 1 = 2"
    by blast
  from th len have b: "map f_rank (e_fields (fst (buildLbEmbed ex_us5 (ex_snapshot ''us-5'' ex_players12)
                                  ex_players12 3 0 (ex_state Map.empty)))) = [11, 12]"
    by blast
  from th len have "map f_name (e_fields (fst (buildLbEmbed ex_us5 (ex_snapshot ''us-5'' ex_players12)
                                  ex_players12 3 0 (ex_state Map.empty))))
                      = map displayName (drop 10 ex_players12)"
    by blast
  then have c: "map f_name (e_fields (fst (buildLbEmbed ex_us5 (ex_snapshot ''us-5'' ex_players12)
                                  ex_players12 3 0 (ex_state Map.empty)))) = [''P11'', ''P12'']"
    by (simp only: last2)
  from len a b c show ?thesis
    by (intro conjI)
qed

lemma getLobbySnapshot_lastFetched:
  assumes "fst (getLobbySnapshot l t res tS tF s) = Some snap"
  shows "lastFetched snap \<noteq> None"
proof (cases "isFresh (lobbyCache s (key l)) t")
  case True
  with assms have "isFresh (Some snap) t"
    by (simp add: getLobbySnapshot_def Let_def)
  then show ?thesis
    by (auto simp: isFresh_def split: option.splits)
next
  case False
  with assms have r: "fst (fetchLobbyPlayers l res tS tF s) = Some snap"
    by (simp add: getLobbySnapshot_def Let_def)
  show ?thesis
  proof (cases "truthy (url l)")
    case True
    with r obtain snap' where "fetchTry l res tS tF (solPriceUsd s) = Inr snap'" and "snap' = snap"
      by (auto simp: fetchLobbyPlayers_def Let_def split: sum.splits)
    then show ?thesis
      using fetchTry_lastFetched by force
  next
    case False
    with r show ?thesis
      by (auto simp: fetchLobbyPlayers_def Let_def)
  qed
qed

lemma buildLbEmbed_inputs:
  assumes "solPriceUsd s1 = solPriceUsd s2" and "solPriceUpdatedAt s1 = solPriceUpdatedAt s2"
    and "lastFetched snap \<noteq> None"
  shows "buildLbEmbed l snap ps page now1 s1 = buildLbEmbed l snap ps page now2 s2"
proof -
  from assms(3) obtain t where "lastFetched snap = Some t"
    by blast
  moreover have "solPriceStatusLine s1 = solPriceStatusLine s2"
    unfolding solPriceStatusLine_def assms(1,2) ..
  ultimately show ?thesis
    by (simp add: buildLbEmbed_def)
qed

text \<open>
  C9. The view is a function of the lobby definition, the snapshot, the player list, the
  page and the two price variables: for a snapshot that has its fetch time, two
  renderings with the same arguments and the same price variables give the same embed
  and the same buttons, whatever the clock shows and whatever else differs between the
  two states (the cache, the count of requests). Every snapshot \<open>getLobbySnapshot\<close>
  returns has its fetch time. The view takes the state as an argument and returns no
  state: \<open>buildLbEmbed\<close> assigns to no variable of the module.
\<close>

theorem C9_leaderboard_pure:
  "(solPriceUsd s1 = solPriceUsd s2 \<and> solPriceUpdatedAt s1 = solPriceUpdatedAt s2
      \<and> lastFetched snap \<noteq> None
      \<longrightarrow> buildLbEmbed l snap ps page now1 s1 = buildLbEmbed l snap ps page now2 s2)
   \<and> (fst (getLobbySnapshot l' t res tS tF s) = Some snap' \<longrightarrow> lastFetched snap' \<noteq> None)"
  using buildLbEmbed_inputs getLobbySnapshot_lastFetched by blast

text \<open>
  The instance: page 1 of the twelve players, rendered at time 5000 with an empty cache
  and again at time 99000 with a cached lobby and seven requests sent.
\<close>

theorem C9_leaderboard_pure_witness:
  "lastFetched (ex_snapshot ''us-5'' ex_players12) \<noteq> None
   \<and> buildLbEmbed ex_us5 (ex_snapshot ''us-5'' ex_players12) ex_players12 1 5000
        (ex_state Map.empty)
     = buildLbEmbed ex_us5 (ex_snapshot ''us-5'' ex_players12) ex_players12 1 99000
        ((ex_state [''us-1'' \<mapsto> ex_snapshot ''us-1'' []])\<lparr>netCalls := 7\<rparr>)"
proof -
  have lf: "lastFetched (ex_snapshot ''us-5'' ex_players12) \<noteq> None"
    by (simp add: ex_snapshot_def)
  have pr: "solPriceUsd (ex_state Map.empty)
              = solPriceUsd ((ex_state [''us-1'' \<mapsto> ex_snapshot ''us-1'' []])\<lparr>netCalls := 7\<rparr>)
          \<and> solPriceUpdatedAt (ex_state Map.empty)
              = solPriceUpdatedAt ((ex_state [''us-1'' \<mapsto> ex_snapshot ''us-1'' []])\<lparr>netCalls := 7\<rparr>)"
    by (simp add: ex_state_def)
  from lf pr
    C9_leaderboard_pure [where ?s1.0 = "ex_state Map.empty"
      and ?s2.0 = "(ex_state [''us-1'' \<mapsto> ex_snapshot ''us-1'' []])\<lparr>netCalls := 7\<rparr>"
      and snap = "ex_snapshot ''us-5'' ex_players12" and l = ex_us5 and ps = ex_players12
      and page = 1 and ?now1.0 = 5000 and ?now2.0 = 99000]
  have "buildLbEmbed ex_us5 (ex_snapshot ''us-5'' ex_players12) ex_players12 1 5000
        (ex_state Map.empty)
     = buildLbEmbed ex_us5 (ex_snapshot ''us-5'' ex_players12) ex_players12 1 99000
        ((ex_state [''us-1'' \<mapsto> ex_snapshot ''us-1'' []])\<lparr>netCalls := 7\<rparr>)"
    by blast
  with lf show ?thesis
    by (intro conjI)
qed

section \<open>Saving and loading the configuration\<close>

lemma mapSet_fresh: "k \<notin> fst ` set m \<Longrightarrow> mapSet k v m = m @ [(k, v)]"
  by (induction m) auto

lemma foldl_mapSet_fresh:
  assumes "distinct (map f xs)" and "f ` set xs \<inter> fst ` set acc = {}"
  shows "foldl (\<lambda>acc x. mapSet (f x) (g x) acc) acc xs = acc @ map (\<lambda>x. (f x, g x)) xs"
  using assms
proof (induction xs arbitrary: acc)
  case Nil
  show ?case by simp
next
  case (Cons x xs)
  from Cons.prems have fresh: "f x \<notin> fst ` set acc"
    by auto
  from Cons.prems have "distinct (map f xs)" and "f ` set xs \<inter> fst ` set (acc @ [(f x, g x)]) = {}"
    by auto
  from Cons.IH [OF this] fresh show ?case
    by (simp add: mapSet_fresh)
qed

lemma mapSet_values:
  assumes "\<forall>kv \<in> set m. P (snd kv)" and "P v"
  shows "\<forall>kv \<in> set (mapSet k v m). P (snd kv)"
  using assms by (induction m) (fastforce split: if_splits)+

lemma foldl_mapSet_values:
  assumes "\<forall>kv \<in> set acc. P (snd kv)" and "\<And>x. P (g x)"
  shows "\<forall>kv \<in> set (foldl (\<lambda>acc x. mapSet (f x) (g x) acc) acc xs). P (snd kv)"
  using assms(1)
proof (induction xs arbitrary: acc)
  case Nil
  then show ?case by simp
next
  case (Cons x xs)
  have "\<forall>kv \<in> set (mapSet (f x) (g x) acc). P (snd kv)"
    using Cons.prems assms(2) by (rule mapSet_values)
  from Cons.IH [OF this] show ?case
    by simp
qed

lemma orNull_id: "v \<noteq> Some [] \<Longrightarrow> orNull v = v"
  by (cases v) (simp_all add: orNull_def truthy_def)

lemma watch_copy:
  "\<lparr>id_w = id_w w, lobbyKey = lobbyKey w, threshold = threshold w,
    intervalMinutes = intervalMinutes w, lastAlertAt = lastAlertAt w\<rparr> = (w :: watch)"
  by simp

lemma own_ids:
  assumes "list_all (\<lambda>iw. id_w (snd iw) = fst iw) ws"
  shows "map (\<lambda>w. (id_w w, w)) (map snd ws) = ws" and "map id_w (map snd ws) = map fst ws"
  using assms by (induction ws) auto

lemma load_saved_watches:
  assumes "distinct (map fst ws)" and "list_all (\<lambda>iw. id_w (snd iw) = fst iw) ws"
  shows "foldl (\<lambda>acc w. mapSet (id_w w)
                  \<lparr>id_w = id_w w, lobbyKey = lobbyKey w, threshold = threshold w,
                   intervalMinutes = intervalMinutes w, lastAlertAt = lastAlertAt w\<rparr> acc)
           [] (map (\<lambda>w. \<lparr>id_w = id_w w, lobbyKey = lobbyKey w, threshold = threshold w,
                         intervalMinutes = intervalMinutes w, lastAlertAt = lastAlertAt w\<rparr>)
                 (map snd ws)) = ws"
proof -
  from assms have d: "distinct (map id_w (map snd ws))"
    by (simp only: own_ids(2))
  have "foldl (\<lambda>acc w. mapSet (id_w w) w acc) [] (map snd ws)
          = [] @ map (\<lambda>w. (id_w w, w)) (map snd ws)"
    by (rule foldl_mapSet_fresh [OF d]) simp
  with assms(2) have "foldl (\<lambda>acc w. mapSet (id_w w) w acc) [] (map snd ws) = ws"
    by (simp only: own_ids(1) append_Nil)
  then show ?thesis
    by (simp only: watch_copy map_ident)
qed

lemma loadCfg_saveCfg:
  assumes "wfCfg cfg"
  shows "loadCfg (saveCfg cfg) = restored cfg"
proof -
  from assms have w: "distinct (map fst (watches cfg))"
      "list_all (\<lambda>iw. id_w (snd iw) = fst iw) (watches cfg)"
    and n: "nextWatchId cfg \<noteq> 0"
    and s: "alertChannelId cfg \<noteq> Some []" "pingRoleId cfg \<noteq> Some []"
      "defaultRegion cfg \<noteq> Some []" "refreshChannelId cfg \<noteq> Some []"
    by (simp_all add: wfCfg_def)
  have ws: "watches (loadCfg (saveCfg cfg)) = watches cfg"
    using load_saved_watches [OF w] by (simp add: loadCfg_def saveCfg_def)
  have rest: "loadCfg (saveCfg cfg)
      = (restored cfg)\<lparr>watches := watches (loadCfg (saveCfg cfg))\<rparr>"
    using n s by (simp add: loadCfg_def saveCfg_def restored_def orNull_id orOne_def)
  show ?thesis
    using rest unfolding ws by (simp add: restored_def)
qed

lemma loadGuildConfigs_values:
  "\<forall>gc \<in> set (loadGuildConfigsFromDisk (Some parsed) old). lastSeenPlayers (snd gc) = Map.empty"
proof -
  have "\<forall>kv \<in> set (foldl (\<lambda>acc x. mapSet (fst x) (loadCfg (snd x)) acc) [] parsed).
          lastSeenPlayers (snd kv) = Map.empty"
    by (rule foldl_mapSet_values) (simp_all add: loadCfg_def)
  then show ?thesis
    by (simp add: loadGuildConfigsFromDisk_def case_prod_unfold)
qed

lemma loadGuildConfigs_saved:
  assumes "distinct (map fst gcs)" and "\<forall>gc \<in> set gcs. wfCfg (snd gc)"
  shows "loadGuildConfigsFromDisk (Some (saveGuildConfigsToDisk gcs)) old
           = map (\<lambda>gc. (fst gc, restored (snd gc))) gcs"
proof -
  let ?saved = "map (\<lambda>gc. (fst gc, saveCfg (snd gc))) gcs"
  have d: "distinct (map fst ?saved)"
    using assms(1) by (simp add: comp_def)
  have "foldl (\<lambda>acc x. mapSet (fst x) (loadCfg (snd x)) acc) [] ?saved
          = [] @ map (\<lambda>x. (fst x, loadCfg (snd x))) ?saved"
    by (rule foldl_mapSet_fresh [OF d]) simp
  also have "\<dots> = map (\<lambda>gc. (fst gc, loadCfg (saveCfg (snd gc)))) gcs"
    by (simp add: comp_def)
  also have "\<dots> = map (\<lambda>gc. (fst gc, restored (snd gc))) gcs"
    using assms(2) by (simp add: loadCfg_saveCfg)
  finally show ?thesis
    by (simp add: loadGuildConfigsFromDisk_def saveGuildConfigsToDisk_def case_prod_unfold)
qed

text \<open>
  C8. The object written for a guild has no field for the last-seen sets and does not
  depend on them. Loading gives every guild an empty map of last-seen sets, whatever the
  file holds. For a configuration as the commands build it, loading what was saved
  gives the configuration reset with the last-seen sets empty and the id of the last
  refresh message reset: the alert channel, the alert-enabled map, the watches with
  their \<open>lastAlertAt\<close>, the next watch id, the ping role, the default region and the
  refresh channel are restored, for one guild and for the whole file.
\<close>

theorem C8_persistence:
  "saveCfg (cfg\<lparr>lastSeenPlayers := seen\<rparr>) = saveCfg cfg
   \<and> lastSeenPlayers (loadCfg stored) = Map.empty
   \<and> (\<forall>gc \<in> set (loadGuildConfigsFromDisk (Some parsed) old).
         lastSeenPlayers (snd gc) = Map.empty)
   \<and> (wfCfg cfg \<longrightarrow>
         loadCfg (saveCfg cfg) = cfg\<lparr>lastSeenPlayers := Map.empty, lastRefreshMessageId := None\<rparr>)
   \<and> (distinct (map fst gcs) \<and> (\<forall>gc \<in> set gcs. wfCfg (snd gc)) \<longrightarrow>
         loadGuildConfigsFromDisk (Some (saveGuildConfigsToDisk gcs)) old
           = map (\<lambda>gc. (fst gc, (snd gc)\<lparr>lastSeenPlayers := Map.empty,
                                            lastRefreshMessageId := None\<rparr>)) gcs)"
proof (intro conjI impI)
  show "saveCfg (cfg\<lparr>lastSeenPlayers := seen\<rparr>) = saveCfg cfg"
    by (simp add: saveCfg_def)
  show "lastSeenPlayers (loadCfg stored) = Map.empty"
    by (simp add: loadCfg_def)
  show "\<forall>gc \<in> set (loadGuildConfigsFromDisk (Some parsed) old).
         lastSeenPlayers (snd gc) = Map.empty"
    by (rule loadGuildConfigs_values)
  show "loadCfg (saveCfg cfg) = cfg\<lparr>lastSeenPlayers := Map.empty, lastRefreshMessageId := None\<rparr>"
    if "wfCfg cfg"
    using loadCfg_saveCfg [OF that] by (simp add: restored_def)
  show "loadGuildConfigsFromDisk (Some (saveGuildConfigsToDisk gcs)) old
           = map (\<lambda>gc. (fst gc, (snd gc)\<lparr>lastSeenPlayers := Map.empty,
                                            lastRefreshMessageId := None\<rparr>)) gcs"
    if "distinct (map fst gcs) \<and> (\<forall>gc \<in> set gcs. wfCfg (snd gc))"
    using that loadGuildConfigs_saved [of gcs old] by (simp add: restored_def)
qed

text \<open>
  The instance: the guild of the examples with the last-seen set {A, B} for \<open>us-5\<close> is
  saved and loaded; it comes reset with its channel, its alert-enabled map, its watch and
  counter, and with no last-seen set.
\<close>

theorem C8_persistence_witness:
  "wfCfg ex_cfgAB
   \<and> lastSeenPlayers ex_cfgAB ''us-5'' = Some [Some ''A'', Some ''B'']
   \<and> loadCfg (saveCfg ex_cfgAB) = ex_cfg
   \<and> loadGuildConfigsFromDisk (Some (saveGuildConfigsToDisk [(''4711'', ex_cfgAB)])) []
       = [(''4711'', ex_cfg)]"
proof -
  have wf: "wfCfg ex_cfgAB"
    by (simp add: wfCfg_def ex_cfgAB_def ex_cfg_def ex_watch_def)
  have seen: "lastSeenPlayers ex_cfgAB ''us-5'' = Some [Some ''A'', Some ''B'']"
    by (simp add: ex_cfgAB_def)
  have reset: "ex_cfgAB\<lparr>lastSeenPlayers := Map.empty, lastRefreshMessageId := None\<rparr> = ex_cfg"
    by (simp add: ex_cfgAB_def ex_cfg_def)
  note th = C8_persistence [where cfg = ex_cfgAB and gcs = "[(''4711'', ex_cfgAB)]" and old = "[]"]
  from th wf have a: "loadCfg (saveCfg ex_cfgAB)
        = ex_cfgAB\<lparr>lastSeenPlayers := Map.empty, lastRefreshMessageId := None\<rparr>"
    by blast
  have pre: "distinct (map fst [(''4711'', ex_cfgAB)])
        \<and> (\<forall>gc \<in> set [(''4711'', ex_cfgAB)]. wfCfg (snd gc))"
    using wf by simp
  from th pre have b: "loadGuildConfigsFromDisk (Some (saveGuildConfigsToDisk [(''4711'', ex_cfgAB)])) []
        = map (\<lambda>gc. (fst gc, (snd gc)\<lparr>lastSeenPlayers := Map.empty,
                                         lastRefreshMessageId := None\<rparr>)) [(''4711'', ex_cfgAB)]"
    by blast
  from a reset have a': "loadCfg (saveCfg ex_cfgAB) = ex_cfg"
    by (rule trans)
  from b reset have b': "loadGuildConfigsFromDisk (Some (saveGuildConfigsToDisk [(''4711'', ex_cfgAB)])) []
       = [(''4711'', ex_cfg)]"
    by simp
  from wf seen a' b' show ?thesis
    by (intro conjI)
qed

section \<open>The guards of the polling loop\<close>

text \<open>
  The per-lobby and per-watch steps above run inside loops that first test the guild:
  without an alert channel that resolves, neither loop sends a message or changes the
  configuration. For a lobby whose alerts are enabled and whose snapshot is usable, the
  loop over the lobbies runs the join-diff on the snapshot's players.
\<close>

lemma processJoinAlertsGuild_guard:
  assumes "\<not> truthy (alertChannelId cfg) \<or> \<not> channelOk"
  shows "processJoinAlertsGuild cache channelOk sendOk cfg = ([], cfg, None)"
  using assms by (auto simp: processJoinAlertsGuild_def)

lemma processWatchesGuild_guard:
  assumes "\<not> truthy (alertChannelId cfg) \<or> \<not> channelOk"
  shows "processWatchesGuild cache now channelOk env cfg = ([], cfg, None)"
  using assms by (auto simp: processWatchesGuild_def)

lemma joinLobby_joinDiff:
  assumes "alertEnabled cfg (key l) = Some True" and "cache (key l) = Some snap"
    and "\<not> noApi snap" and "players snap = Some ps"
  shows "snd (joinLobby cache l cfg) = snd (snd (joinDiff (key l) ps cfg))"
    and "fst (joinLobby cache l cfg)
           = joinMessage cfg l (fst (joinDiff (key l) ps cfg)) (length (activePlayers ps))"
  using assms by (simp_all add: joinLobby_def joinDiff_eq)

lemma watchLoop_single:
  assumes "find (\<lambda>l. key l = lobbyKey w) LOBBIES = Some lobbyDef"
    and "evaluateWatch ping lobbyDef cache now (fst (env i)) (snd (env i)) w = (Fired m, w')"
  shows "watchLoop ping cache now env [(i, w)] = ([m], [(i, w')], None)"
  using assms by simp


end
